theory Spec2Isabelle
  imports Complex_Main
begin

section \<open>Voice Dictator: the recording and transcription state machine\<close>

text \<open>
  The repository holds two programs with the same structure: \<^verbatim>\<open>dictator.py\<close>, a
  command-line tool, and \<^verbatim>\<open>dictator_app.py\<close>, a menu-bar application that adds
  a duration gate, an energy gate and a bounded history. Both keep their state in module
  globals (\<^verbatim>\<open>recording\<close>, \<^verbatim>\<open>toggle_mode\<close>, \<^verbatim>\<open>shift_held\<close>,
  \<^verbatim>\<open>audio_data\<close>, \<^verbatim>\<open>stream\<close>, and \<^verbatim>\<open>history\<close> in the application) and
  change them from the keyboard handlers \<^verbatim>\<open>on_press\<close> and \<^verbatim>\<open>on_release\<close>, from
  \<^verbatim>\<open>start_recording\<close> and \<^verbatim>\<open>stop_recording\<close>, and from the audio callback.

  The embedding passes the globals around as a record. What the programs do to the outside
  world is written into the record as well: the input streams they create (a store of stream
  objects, the global \<^verbatim>\<open>stream\<close> being a reference into it) and a trace of the calls
  to the transcription engine, the clipboard, the keyboard controller and the thread library.
  Console output and the drawing of the menu (\<^verbatim>\<open>print\<close>, \<^verbatim>\<open>update_icon\<close>,
  \<^verbatim>\<open>update_menu\<close>) read the state and never write it; they are left out.
\<close>

subsection \<open>Configuration\<close>

text \<open>\<^verbatim>\<open>SAMPLE_RATE = 16000\<close>, \<^verbatim>\<open>MAX_HISTORY = 10\<close>,
  \<^verbatim>\<open>MIN_AUDIO_DURATION = 0.5\<close>, \<^verbatim>\<open>MIN_AUDIO_ENERGY = 0.001\<close>.\<close>

definition SAMPLE_RATE :: nat where
  "SAMPLE_RATE = 16000"

definition MAX_HISTORY :: nat where
  "MAX_HISTORY = 10"

definition MIN_AUDIO_DURATION :: real where
  "MIN_AUDIO_DURATION = 5 / 10"

definition MIN_AUDIO_ENERGY :: real where
  "MIN_AUDIO_ENERGY = 1 / 1000"

subsection \<open>Data\<close>

text \<open>Which of the two programs runs.\<close>

datatype program = Dictator | DictatorApp

text \<open>
  The keys the handlers compare against: \<^verbatim>\<open>Key.shift\<close>, \<^verbatim>\<open>HOLD_KEY\<close>
  (\<^verbatim>\<open>Key.alt\<close> in \<^verbatim>\<open>dictator.py\<close>, \<^verbatim>\<open>Key.ctrl\<close> in
  \<^verbatim>\<open>dictator_app.py\<close>), and every other key.
\<close>

datatype key = Shift | Hold | Other

text \<open>
  The exceptions that can leave a function of the model: the audio library failing to open or
  start the input stream, the transcription engine failing, and Python's NameError for the
  global \<^verbatim>\<open>stream\<close> read before any assignment.
\<close>

datatype error = DeviceUnavailable | EngineFailure | NameError

text \<open>
  An input stream object is created inactive, is active between \<^verbatim>\<open>start()\<close> and
  \<^verbatim>\<open>stop()\<close>, and is closed by \<^verbatim>\<open>close()\<close>.
\<close>

datatype stream_status = Active | Stopped | Closed

text \<open>The keys the program itself presses to paste: \<^verbatim>\<open>Key.cmd\<close> and a character.\<close>

datatype kbkey = Cmd | Chr char

text \<open>
  Calls to the outside, in the order they are made:
  \<^verbatim>\<open>threading.Thread(target=stop_recording).start()\<close>,
  \<^verbatim>\<open>model.transcribe(audio, fp16=False)\<close>, \<^verbatim>\<open>pyperclip.copy(text)\<close>,
  \<^verbatim>\<open>kb.press(k)\<close> and \<^verbatim>\<open>kb.release(k)\<close>.
\<close>

datatype effect =
    ThreadStart
  | Transcribe "real list"
  | Copy string
  | KbPress kbkey
  | KbRelease kbkey

text \<open>
  What the surroundings answer during one handler call: whether the audio device can be
  opened and started, what the engine returns for a sample array (its \<^verbatim>\<open>"text"\<close>
  entry, or an exception), and the formatted time of day \<^verbatim>\<open>datetime.now().strftime(...)\<close>.
\<close>

datatype device = Available | OpenFails | StartFails

record env =
  device :: device
  engine :: "real list \<Rightarrow> error + string"
  now :: string

text \<open>
  The module globals, the store of stream objects and the trace of effects. Samples are
  \<^verbatim>\<open>float32\<close> values in the source and real numbers here; a chunk is one array
  delivered to the callback. \<open>stream = None\<close> stands for the global not being bound yet.
\<close>

record state =
  recording :: bool
  toggle_mode :: bool
  shift_held :: bool
  audio_data :: "real list list"
  stream :: "nat option"
  streams :: "stream_status list"
  history :: "(string \<times> string) list"
  effects :: "effect list"

definition init :: state where
  "init = \<lparr>recording = False, toggle_mode = False, shift_held = False, audio_data = [],
           stream = None, streams = [], history = [], effects = []\<rparr>"

subsection \<open>Strings\<close>

text \<open>
  Python's \<^verbatim>\<open>str.strip()\<close> removes leading and trailing white space. On the code
  points a \<^typ>\<open>char\<close> can hold, \<^verbatim>\<open>str.isspace\<close> is true of 9 to 13, 28 to 32, 133 and
  160.
\<close>

definition isspace :: "char \<Rightarrow> bool" where
  "isspace c =
     (let n = (of_char c :: nat)
      in (9 \<le> n \<and> n \<le> 13) \<or> (28 \<le> n \<and> n \<le> 32) \<or> n = 133 \<or> n = 160)"

definition strip :: "string \<Rightarrow> string" where
  "strip s = rev (dropWhile isspace (rev (dropWhile isspace s)))"

subsection \<open>Starting a recording\<close>

text \<open>
  \<^verbatim>\<open>start_recording\<close> (both files). The flag is set and the buffer emptied before the
  stream is created; \<^verbatim>\<open>sd.InputStream(...)\<close> or \<^verbatim>\<open>stream.start()\<close> may raise, and
  nothing catches it. The result is the exception, if any, and the globals as the call left
  them.
\<close>

definition start_recording :: "env \<Rightarrow> state \<Rightarrow> error option \<times> state" where
  "start_recording e s =
     (if recording s then (None, s)
      else
        let s1 = s\<lparr>recording := True, audio_data := []\<rparr>
        in case device e of
             OpenFails \<Rightarrow> (Some DeviceUnavailable, s1)
           | StartFails \<Rightarrow>
               (Some DeviceUnavailable,
                s1\<lparr>stream := Some (length (streams s1)), streams := streams s1 @ [Stopped]\<rparr>)
           | Available \<Rightarrow>
               (None,
                s1\<lparr>stream := Some (length (streams s1)), streams := streams s1 @ [Active]\<rparr>))"

text \<open>
  The audio callback defined inside \<^verbatim>\<open>start_recording\<close>: it reads the global
  \<^verbatim>\<open>recording\<close> and appends a copy of the chunk to the global \<^verbatim>\<open>audio_data\<close>.
\<close>

definition callback :: "real list \<Rightarrow> state \<Rightarrow> state" where
  "callback indata s =
     (if recording s then s\<lparr>audio_data := audio_data s @ [indata]\<rparr> else s)"

subsection \<open>Stopping and transcribing\<close>

text \<open>
  \<^verbatim>\<open>stream.stop()\<close> followed by \<^verbatim>\<open>stream.close()\<close> on the object the global refers
  to: whatever its status was, it ends closed. Reading the unbound global raises.
\<close>

definition stop_and_close :: "state \<Rightarrow> error option \<times> state" where
  "stop_and_close s =
     (case stream s of
        None \<Rightarrow> (Some NameError, s)
      | Some i \<Rightarrow> (None, s\<lparr>streams := ((streams s)[i := Stopped])[i := Closed]\<rparr>))"

text \<open>\<^verbatim>\<open>np.concatenate(audio_data, axis=0).flatten()\<close>: all samples in order.\<close>

definition flatten :: "real list list \<Rightarrow> real list" where
  "flatten chunks = concat chunks"

text \<open>
  \<^verbatim>\<open>len(audio) / SAMPLE_RATE\<close> and \<^verbatim>\<open>np.sqrt(np.mean(audio ** 2))\<close>, over the
  real numbers. The source rounds the quotient of the two integers to a double; for a whole
  number of samples and a rate of 16000 the rounded quotient is below 0.5 exactly when the
  exact one is. The source computes the root mean square in \<^verbatim>\<open>float32\<close>; on a buffer of
  zeros every step is exact, elsewhere the rounded value can fall on the other side of the
  threshold when the exact one is within rounding of it. \<^verbatim>\<open>stop_recording\<close> computes the root mean square only of
  buffers that passed the duration gate, which are not empty.
\<close>

definition duration :: "real list \<Rightarrow> real" where
  "duration audio = real (length audio) / real SAMPLE_RATE"

definition rms_energy :: "real list \<Rightarrow> real" where
  "rms_energy audio = sqrt (sum_list (map (\<lambda>x. x ^ 2) audio) / real (length audio))"

text \<open>
  The paste: \<^verbatim>\<open>pyperclip.copy(text)\<close>, then Cmd down, v down, v up, Cmd up.
\<close>

definition paste :: "string \<Rightarrow> effect list" where
  "paste text = [Copy text, KbPress Cmd, KbPress (Chr CHR ''v''), KbRelease (Chr CHR ''v''),
                 KbRelease Cmd]"

text \<open>
  The part of \<^verbatim>\<open>stop_recording\<close> after the audio is combined and the gates are passed,
  in \<^verbatim>\<open>dictator.py\<close>: transcribe, strip, and paste a non-empty text.
\<close>

definition transcribe_and_paste :: "env \<Rightarrow> real list \<Rightarrow> state \<Rightarrow> error option \<times> state" where
  "transcribe_and_paste e audio s =
     (let s1 = s\<lparr>effects := effects s @ [Transcribe audio]\<rparr>
      in case engine e audio of
           Inl err \<Rightarrow> (Some err, s1)
         | Inr raw \<Rightarrow>
             let text = strip raw
             in if text \<noteq> []
                then (None, s1\<lparr>effects := effects s1 @ paste text\<rparr>)
                else (None, s1))"

text \<open>
  The same part in \<^verbatim>\<open>dictator_app.py\<close>: a non-empty text is first put at the left end
  of \<^verbatim>\<open>history\<close>, a \<^verbatim>\<open>deque(maxlen=MAX_HISTORY)\<close> that drops its right end when
  full, and then pasted.
\<close>

definition transcribe_and_record :: "env \<Rightarrow> real list \<Rightarrow> state \<Rightarrow> error option \<times> state" where
  "transcribe_and_record e audio s =
     (let s1 = s\<lparr>effects := effects s @ [Transcribe audio]\<rparr>
      in case engine e audio of
           Inl err \<Rightarrow> (Some err, s1)
         | Inr raw \<Rightarrow>
             let text = strip raw
             in if text \<noteq> []
                then
                  let s2 = s1\<lparr>history := take MAX_HISTORY ((now e, text) # history s1)\<rparr>
                  in (None, s2\<lparr>effects := effects s2 @ paste text\<rparr>)
                else (None, s1))"

text \<open>\<^verbatim>\<open>stop_recording\<close> of \<^verbatim>\<open>dictator.py\<close>: no gate but the empty buffer.\<close>

definition stop_recording_cli :: "env \<Rightarrow> state \<Rightarrow> error option \<times> state" where
  "stop_recording_cli e s =
     (if \<not> recording s then (None, s)
      else
        case stop_and_close (s\<lparr>recording := False\<rparr>) of
          (Some err, s1) \<Rightarrow> (Some err, s1)
        | (None, s1) \<Rightarrow>
            if audio_data s1 = [] then (None, s1)
            else transcribe_and_paste e (flatten (audio_data s1)) s1)"

text \<open>
  \<^verbatim>\<open>stop_recording\<close> of \<^verbatim>\<open>dictator_app.py\<close>: the empty buffer, the duration gate
  and the energy gate each return before the engine is called.
\<close>

definition stop_recording_app :: "env \<Rightarrow> state \<Rightarrow> error option \<times> state" where
  "stop_recording_app e s =
     (if \<not> recording s then (None, s)
      else
        case stop_and_close (s\<lparr>recording := False\<rparr>) of
          (Some err, s1) \<Rightarrow> (Some err, s1)
        | (None, s1) \<Rightarrow>
            if audio_data s1 = [] then (None, s1)
            else
              let audio = flatten (audio_data s1)
              in if duration audio < MIN_AUDIO_DURATION then (None, s1)
                 else if rms_energy audio < MIN_AUDIO_ENERGY then (None, s1)
                 else transcribe_and_record e audio s1)"

definition stop_recording :: "program \<Rightarrow> env \<Rightarrow> state \<Rightarrow> error option \<times> state" where
  "stop_recording p e s =
     (case p of Dictator \<Rightarrow> stop_recording_cli e s | DictatorApp \<Rightarrow> stop_recording_app e s)"

text \<open>
  \<^verbatim>\<open>threading.Thread(target=stop_recording).start()\<close>, in the schedule where the thread
  runs to its end before the listener does anything else. An exception that leaves the body
  ends that thread only: the handler that started it never sees it, and the globals stay as
  the body left them. The other schedules are the subject of the section on threads.
\<close>

definition spawn_stop :: "program \<Rightarrow> env \<Rightarrow> state \<Rightarrow> state" where
  "spawn_stop p e s = snd (stop_recording p e (s\<lparr>effects := effects s @ [ThreadStart]\<rparr>))"

subsection \<open>The keyboard handlers\<close>

text \<open>\<^verbatim>\<open>on_press\<close> and \<^verbatim>\<open>on_release\<close>, the same in both files.\<close>

definition on_press :: "program \<Rightarrow> env \<Rightarrow> key \<Rightarrow> state \<Rightarrow> error option \<times> state" where
  "on_press p e k s =
     (let s1 = (if k = Shift then s\<lparr>shift_held := True\<rparr> else s)
      in if k = Hold then
           if toggle_mode s1 then (None, spawn_stop p e (s1\<lparr>toggle_mode := False\<rparr>))
           else if shift_held s1 then start_recording e (s1\<lparr>toggle_mode := True\<rparr>)
           else start_recording e s1
         else (None, s1))"

definition on_release :: "program \<Rightarrow> env \<Rightarrow> key \<Rightarrow> state \<Rightarrow> error option \<times> state" where
  "on_release p e k s =
     (let s1 = (if k = Shift then s\<lparr>shift_held := False\<rparr> else s)
      in if k = Hold \<and> \<not> toggle_mode s1 \<and> \<not> shift_held s1
         then (None, spawn_stop p e s1)
         else (None, s1))"

text \<open>\<^verbatim>\<open>clear_history\<close>, the menu entry of the application.\<close>

definition clear_history :: "state \<Rightarrow> state" where
  "clear_history s = s\<lparr>history := []\<rparr>"

subsection \<open>Runs\<close>

text \<open>
  What can happen to the globals: a key goes down or up, an active stream delivers a chunk to
  the callback, or the history is cleared from the menu. A run handles the events one after
  the other and ends at the first exception that leaves a handler.
\<close>

datatype event = Press key | Release key | Frames "real list" | ClearHistory

fun step :: "program \<Rightarrow> env \<Rightarrow> event \<Rightarrow> state \<Rightarrow> error option \<times> state" where
  "step p e (Press k) s = on_press p e k s"
| "step p e (Release k) s = on_release p e k s"
| "step p e (Frames indata) s =
     (if Active \<in> set (streams s) then (None, callback indata s) else (None, s))"
| "step p e ClearHistory s = (None, clear_history s)"

fun run :: "program \<Rightarrow> (env \<times> event) list \<Rightarrow> state \<Rightarrow> error option \<times> state" where
  "run p [] s = (None, s)"
| "run p (x # xs) s =
     (case step p (fst x) (snd x) s of
        (Some err, s1) \<Rightarrow> (Some err, s1)
      | (None, s1) \<Rightarrow> run p xs s1)"

text \<open>
  The recording mode as the two flags encode it, and the number of capture sessions: the
  stream objects that are active.
\<close>

datatype mode = Idle | Momentary | Continuous

definition mode_of :: "state \<Rightarrow> mode" where
  "mode_of s = (if recording s then (if toggle_mode s then Continuous else Momentary) else Idle)"

definition active_sessions :: "state \<Rightarrow> nat" where
  "active_sessions s = length (filter (\<lambda>st. st = Active) (streams s))"

text \<open>
  The steps between modes that the specification allows: \<open>Idle\<close> to \<open>Momentary\<close> and
  back, \<open>Idle\<close> to \<open>Continuous\<close> and back.
\<close>

definition claimed_edge :: "mode \<Rightarrow> mode \<Rightarrow> bool" where
  "claimed_edge m m' =
     ((m, m') \<in> set [(Idle, Momentary), (Momentary, Idle), (Idle, Continuous),
                      (Continuous, Idle)])"

text \<open>
  The steps between modes that the handlers can take: a recording starts from \<open>Idle\<close>
  in either mode, stops from either mode, and a momentary recording becomes a continuous one
  when the hold key goes down with shift held.
\<close>

definition edge :: "mode \<Rightarrow> mode \<Rightarrow> bool" where
  "edge m m' =
     ((m, m') \<in> set [(Idle, Momentary), (Momentary, Idle), (Idle, Continuous),
                      (Continuous, Idle), (Momentary, Continuous)])"

text \<open>
  The stream objects and the reference to them agree: no stream is active while nothing is
  recorded, and while something is recorded the only stream that may be active is the one the
  global \<^verbatim>\<open>stream\<close> refers to.
\<close>

definition sessions_ok :: "state \<Rightarrow> bool" where
  "sessions_ok s =
     (if recording s
      then (case stream s of
              Some i \<Rightarrow> Active \<notin> set ((streams s)[i := Closed])
            | None \<Rightarrow> Active \<notin> set (streams s))
      else Active \<notin> set (streams s))"

subsection \<open>Threads\<close>

text \<open>
  \<^verbatim>\<open>on_press\<close> and \<^verbatim>\<open>on_release\<close> only start the thread that runs
  \<^verbatim>\<open>stop_recording\<close>; the thread's statements can fall between those of later handlers.
  The definitions above run the thread to its end where it is started, which is one of the
  schedules. The definitions here execute the listener and the stopping threads one statement
  at a time, in any order.
\<close>

text \<open>
  Where the listener thread stands. It handles one key event at a time; the points are the
  statements of \<^verbatim>\<open>on_press\<close>, \<^verbatim>\<open>on_release\<close> and \<^verbatim>\<open>start_recording\<close> that
  read or write a global. \<open>LDead\<close>: an exception has left the handler.
  \<^item> \<open>LPress\<close>, \<open>LRelease\<close>: \<^verbatim>\<open>if key == Key.shift: shift_held = ...\<close>
  \<^item> \<open>LPressHold\<close>: the tests \<^verbatim>\<open>if key == HOLD_KEY\<close>, \<^verbatim>\<open>if toggle_mode\<close>,
    \<^verbatim>\<open>elif shift_held\<close>
  \<^item> \<open>LReleaseHold\<close>: the test
    \<^verbatim>\<open>if key == HOLD_KEY and not toggle_mode and not shift_held\<close>
  \<^item> \<open>LToggleOff\<close>, \<open>LToggleOn\<close>: \<^verbatim>\<open>toggle_mode = False\<close>, \<^verbatim>\<open>toggle_mode = True\<close>
  \<^item> \<open>LSpawn\<close>: \<^verbatim>\<open>threading.Thread(target=stop_recording).start()\<close>
  \<^item> \<open>LStartTest\<close>: \<^verbatim>\<open>if recording: return\<close>
  \<^item> \<open>LStartSet\<close>, \<open>LStartClear\<close>: \<^verbatim>\<open>recording = True\<close>, \<^verbatim>\<open>audio_data = []\<close>
  \<^item> \<open>LStartOpen\<close>, \<open>LStartStream\<close>: \<^verbatim>\<open>stream = sd.InputStream(...)\<close>,
    \<^verbatim>\<open>stream.start()\<close>
\<close>

datatype lpc =
    LIdle
  | LPress key
  | LPressHold key
  | LToggleOff
  | LToggleOn
  | LSpawn
  | LStartTest
  | LStartSet
  | LStartClear
  | LStartOpen
  | LStartStream
  | LRelease key
  | LReleaseHold key
  | LDead error

text \<open>
  Where a thread running \<^verbatim>\<open>stop_recording\<close> stands, statement by statement, and its
  local variables \<^verbatim>\<open>audio\<close> and \<^verbatim>\<open>text\<close>. \<open>WDead\<close>: an exception has ended the
  thread.
  \<^item> \<open>WTest\<close>, \<open>WClear\<close>: \<^verbatim>\<open>if not recording: return\<close>, \<^verbatim>\<open>recording = False\<close>
  \<^item> \<open>WStop\<close>, \<open>WClose\<close>: \<^verbatim>\<open>stream.stop()\<close>, \<^verbatim>\<open>stream.close()\<close>
  \<^item> \<open>WEmpty\<close>: \<^verbatim>\<open>if not audio_data: return\<close>
  \<^item> \<open>WConcat\<close>: \<^verbatim>\<open>audio = np.concatenate(audio_data, axis=0).flatten()\<close>
  \<^item> \<open>WDuration\<close>, \<open>WEnergy\<close>: the two gates of \<^verbatim>\<open>dictator_app.py\<close>
  \<^item> \<open>WTranscribe\<close>: \<^verbatim>\<open>model.transcribe(audio, fp16=False)\<close> and
    \<^verbatim>\<open>text = result["text"].strip()\<close>
  \<^item> \<open>WText\<close>: \<^verbatim>\<open>if text:\<close>
  \<^item> \<open>WHistory\<close>: \<^verbatim>\<open>history.appendleft((timestamp, text))\<close> of
    \<^verbatim>\<open>dictator_app.py\<close>
  \<^item> \<open>WCopy\<close>: \<^verbatim>\<open>pyperclip.copy(text)\<close>
  \<^item> \<open>WCmdDown\<close>, \<open>WVDown\<close>, \<open>WVUp\<close>, \<open>WCmdUp\<close>: the four calls of \<^verbatim>\<open>kb\<close>
\<close>

datatype wpc =
    WTest
  | WClear
  | WStop
  | WClose
  | WEmpty
  | WConcat
  | WDuration
  | WEnergy
  | WTranscribe
  | WText
  | WHistory
  | WCopy
  | WCmdDown
  | WVDown
  | WVUp
  | WCmdUp
  | WDone
  | WDead error

record worker =
  w_pc :: wpc
  w_audio :: "real list"
  w_text :: string

definition new_worker :: worker where
  "new_worker = \<lparr>w_pc = WTest, w_audio = [], w_text = []\<rparr>"

text \<open>
  The whole program: the globals, the listener thread and the stopping threads started so
  far.
\<close>

record sys =
  glob :: state
  listener :: lpc
  workers :: "worker list"

definition init_sys :: sys where
  "init_sys = \<lparr>glob = init, listener = LIdle, workers = []\<rparr>"

text \<open>
  One statement of the listener thread. The tests of \<^verbatim>\<open>toggle_mode\<close> and
  \<^verbatim>\<open>shift_held\<close> in one \<^verbatim>\<open>if\<close> chain are taken together: only this thread writes
  the two flags.
\<close>

definition listen :: "env \<Rightarrow> sys \<Rightarrow> sys" where
  "listen e c =
     (let g = glob c
      in case listener c of
           LIdle \<Rightarrow> c
         | LDead err \<Rightarrow> c
         | LPress k \<Rightarrow>
             c\<lparr>glob := (if k = Shift then g\<lparr>shift_held := True\<rparr> else g),
               listener := LPressHold k\<rparr>
         | LPressHold k \<Rightarrow>
             c\<lparr>listener :=
                 (if k = Hold
                  then if toggle_mode g then LToggleOff
                       else if shift_held g then LToggleOn
                       else LStartTest
                  else LIdle)\<rparr>
         | LToggleOff \<Rightarrow> c\<lparr>glob := g\<lparr>toggle_mode := False\<rparr>, listener := LSpawn\<rparr>
         | LToggleOn \<Rightarrow> c\<lparr>glob := g\<lparr>toggle_mode := True\<rparr>, listener := LStartTest\<rparr>
         | LSpawn \<Rightarrow>
             c\<lparr>glob := g\<lparr>effects := effects g @ [ThreadStart]\<rparr>,
               workers := workers c @ [new_worker], listener := LIdle\<rparr>
         | LStartTest \<Rightarrow> c\<lparr>listener := (if recording g then LIdle else LStartSet)\<rparr>
         | LStartSet \<Rightarrow> c\<lparr>glob := g\<lparr>recording := True\<rparr>, listener := LStartClear\<rparr>
         | LStartClear \<Rightarrow> c\<lparr>glob := g\<lparr>audio_data := []\<rparr>, listener := LStartOpen\<rparr>
         | LStartOpen \<Rightarrow>
             (if device e = OpenFails then c\<lparr>listener := LDead DeviceUnavailable\<rparr>
              else c\<lparr>glob := g\<lparr>stream := Some (length (streams g)),
                               streams := streams g @ [Stopped]\<rparr>,
                     listener := LStartStream\<rparr>)
         | LStartStream \<Rightarrow>
             (if device e = StartFails then c\<lparr>listener := LDead DeviceUnavailable\<rparr>
              else case stream g of
                     None \<Rightarrow> c\<lparr>listener := LDead NameError\<rparr>
                   | Some i \<Rightarrow>
                       c\<lparr>glob := g\<lparr>streams := (streams g)[i := Active]\<rparr>, listener := LIdle\<rparr>)
         | LRelease k \<Rightarrow>
             c\<lparr>glob := (if k = Shift then g\<lparr>shift_held := False\<rparr> else g),
               listener := LReleaseHold k\<rparr>
         | LReleaseHold k \<Rightarrow>
             c\<lparr>listener :=
                 (if k = Hold \<and> \<not> toggle_mode g \<and> \<not> shift_held g then LSpawn else LIdle)\<rparr>)"

text \<open>
  One statement of a stopping thread. Each statement reads the globals as they are at that
  moment: \<^verbatim>\<open>stream.stop()\<close> and \<^verbatim>\<open>stream.close()\<close> act on whatever the global
  \<^verbatim>\<open>stream\<close> refers to then.
\<close>

definition work :: "program \<Rightarrow> env \<Rightarrow> worker \<Rightarrow> state \<Rightarrow> worker \<times> state" where
  "work p e w g =
     (case w_pc w of
        WTest \<Rightarrow> (w\<lparr>w_pc := (if \<not> recording g then WDone else WClear)\<rparr>, g)
      | WClear \<Rightarrow> (w\<lparr>w_pc := WStop\<rparr>, g\<lparr>recording := False\<rparr>)
      | WStop \<Rightarrow>
          (case stream g of
             None \<Rightarrow> (w\<lparr>w_pc := WDead NameError\<rparr>, g)
           | Some i \<Rightarrow> (w\<lparr>w_pc := WClose\<rparr>, g\<lparr>streams := (streams g)[i := Stopped]\<rparr>))
      | WClose \<Rightarrow>
          (case stream g of
             None \<Rightarrow> (w\<lparr>w_pc := WDead NameError\<rparr>, g)
           | Some i \<Rightarrow> (w\<lparr>w_pc := WEmpty\<rparr>, g\<lparr>streams := (streams g)[i := Closed]\<rparr>))
      | WEmpty \<Rightarrow> (w\<lparr>w_pc := (if audio_data g = [] then WDone else WConcat)\<rparr>, g)
      | WConcat \<Rightarrow>
          (w\<lparr>w_audio := flatten (audio_data g),
             w_pc := (case p of Dictator \<Rightarrow> WTranscribe | DictatorApp \<Rightarrow> WDuration)\<rparr>, g)
      | WDuration \<Rightarrow>
          (w\<lparr>w_pc := (if duration (w_audio w) < MIN_AUDIO_DURATION then WDone else WEnergy)\<rparr>, g)
      | WEnergy \<Rightarrow>
          (w\<lparr>w_pc := (if rms_energy (w_audio w) < MIN_AUDIO_ENERGY then WDone
                       else WTranscribe)\<rparr>, g)
      | WTranscribe \<Rightarrow>
          (case engine e (w_audio w) of
             Inl err \<Rightarrow>
               (w\<lparr>w_pc := WDead err\<rparr>, g\<lparr>effects := effects g @ [Transcribe (w_audio w)]\<rparr>)
           | Inr raw \<Rightarrow>
               (w\<lparr>w_text := strip raw, w_pc := WText\<rparr>,
                g\<lparr>effects := effects g @ [Transcribe (w_audio w)]\<rparr>))
      | WText \<Rightarrow>
          (w\<lparr>w_pc := (if w_text w \<noteq> []
                       then (case p of Dictator \<Rightarrow> WCopy | DictatorApp \<Rightarrow> WHistory)
                       else WDone)\<rparr>, g)
      | WHistory \<Rightarrow>
          (w\<lparr>w_pc := WCopy\<rparr>,
           g\<lparr>history := take MAX_HISTORY ((now e, w_text w) # history g)\<rparr>)
      | WCopy \<Rightarrow> (w\<lparr>w_pc := WCmdDown\<rparr>, g\<lparr>effects := effects g @ [Copy (w_text w)]\<rparr>)
      | WCmdDown \<Rightarrow> (w\<lparr>w_pc := WVDown\<rparr>, g\<lparr>effects := effects g @ [KbPress Cmd]\<rparr>)
      | WVDown \<Rightarrow>
          (w\<lparr>w_pc := WVUp\<rparr>, g\<lparr>effects := effects g @ [KbPress (Chr CHR ''v'')]\<rparr>)
      | WVUp \<Rightarrow>
          (w\<lparr>w_pc := WCmdUp\<rparr>, g\<lparr>effects := effects g @ [KbRelease (Chr CHR ''v'')]\<rparr>)
      | WCmdUp \<Rightarrow> (w\<lparr>w_pc := WDone\<rparr>, g\<lparr>effects := effects g @ [KbRelease Cmd]\<rparr>)
      | WDone \<Rightarrow> (w, g)
      | WDead err \<Rightarrow> (w, g))"

text \<open>
  What can happen next: an event arrives (a key event is taken up when the listener is idle;
  a chunk or a menu click acts at once), the listener executes one statement, or the
  stopping thread with the given number does. No lock orders them in the source, so a
  schedule is any list of these.
\<close>

datatype action = Event event | Listen | Work nat

fun sstep :: "program \<Rightarrow> env \<Rightarrow> action \<Rightarrow> sys \<Rightarrow> sys" where
  "sstep p e (Event (Press k)) c = (if listener c = LIdle then c\<lparr>listener := LPress k\<rparr> else c)"
| "sstep p e (Event (Release k)) c =
     (if listener c = LIdle then c\<lparr>listener := LRelease k\<rparr> else c)"
| "sstep p e (Event (Frames indata)) c =
     (if Active \<in> set (streams (glob c)) then c\<lparr>glob := callback indata (glob c)\<rparr> else c)"
| "sstep p e (Event ClearHistory) c = c\<lparr>glob := clear_history (glob c)\<rparr>"
| "sstep p e Listen c = listen e c"
| "sstep p e (Work i) c =
     (if i < length (workers c)
      then c\<lparr>glob := snd (work p e (workers c ! i) (glob c)),
             workers := (workers c)[i := fst (work p e (workers c ! i) (glob c))]\<rparr>
      else c)"

fun sched :: "program \<Rightarrow> (env \<times> action) list \<Rightarrow> sys \<Rightarrow> sys" where
  "sched p [] c = c"
| "sched p (x # xs) c = sched p xs (sstep p (fst x) (snd x) c)"

text \<open>
  The steps between modes that one statement of a handler can take, and those that one
  statement of a stopping thread can take.
\<close>

definition handler_edge :: "mode \<Rightarrow> mode \<Rightarrow> bool" where
  "handler_edge m m' =
     ((m, m') \<in> set [(Idle, Momentary), (Idle, Continuous), (Momentary, Continuous),
                      (Continuous, Momentary)])"

definition worker_edge :: "mode \<Rightarrow> mode \<Rightarrow> bool" where
  "worker_edge m m' = ((m, m') \<in> set [(Momentary, Idle), (Continuous, Idle)])"

text \<open>
  A thread that has run to its end, a listener that is between two handlers or dead, and a
  program in which every thread is so.
\<close>

fun wfinished :: "wpc \<Rightarrow> bool" where
  "wfinished WDone = True"
| "wfinished (WDead err) = True"
| "wfinished pc = False"

fun lresting :: "lpc \<Rightarrow> bool" where
  "lresting LIdle = True"
| "lresting (LDead err) = True"
| "lresting pc = False"

definition quiet :: "sys \<Rightarrow> bool" where
  "quiet c = (lresting (listener c) \<and> list_all (\<lambda>w. wfinished (w_pc w)) (workers c))"

text \<open>
  The schedule in which nothing overlaps: the event arrives, the listener runs the handler to
  its end (the longest path through a handler has eight statements; a listener at rest does
  nothing), then every stopping thread runs to its end (the longest path through
  \<^verbatim>\<open>stop_recording\<close> has sixteen statements; a finished thread does nothing).
\<close>

definition serial_event :: "program \<Rightarrow> env \<Rightarrow> event \<Rightarrow> sys \<Rightarrow> sys" where
  "serial_event p e ev c =
     (let c1 = sched p ((e, Event ev) # replicate 8 (e, Listen)) c
      in sched p (concat (map (\<lambda>i. replicate 16 (e, Work i)) [0..<length (workers c1)])) c1)"

fun serial :: "program \<Rightarrow> (env \<times> event) list \<Rightarrow> sys \<Rightarrow> sys" where
  "serial p [] c = c"
| "serial p (x # xs) c = serial p xs (serial_event p (fst x) (snd x) c)"

text \<open>
  A number of consecutive statements of one stopping thread.
\<close>

fun works :: "program \<Rightarrow> env \<Rightarrow> nat \<Rightarrow> worker \<Rightarrow> state \<Rightarrow> worker \<times> state" where
  "works p e 0 w g = (w, g)"
| "works p e (Suc n) w g = works p e n (fst (work p e w g)) (snd (work p e w g))"

text \<open>
  The state the listener is left in by a handler that returned or raised.
\<close>

definition lafter :: "error option \<Rightarrow> lpc" where
  "lafter r = (case r of None \<Rightarrow> LIdle | Some err \<Rightarrow> LDead err)"

subsection \<open>Accepted and rejected recordings\<close>

text \<open>
  When a stopped recording gets as far as the engine in \<^verbatim>\<open>dictator_app.py\<close>, and when
  its transcription is accepted: the conditions of \<^verbatim>\<open>stop_recording\<close>, collected.
\<close>

definition reaches_engine :: "state \<Rightarrow> bool" where
  "reaches_engine s =
     (recording s \<and> stream s \<noteq> None \<and> audio_data s \<noteq> [] \<and>
      \<not> duration (flatten (audio_data s)) < MIN_AUDIO_DURATION \<and>
      \<not> rms_energy (flatten (audio_data s)) < MIN_AUDIO_ENERGY)"

definition result_text :: "env \<Rightarrow> state \<Rightarrow> string" where
  "result_text e s =
     (case engine e (flatten (audio_data s)) of Inl err \<Rightarrow> [] | Inr raw \<Rightarrow> strip raw)"

definition accepted :: "env \<Rightarrow> state \<Rightarrow> bool" where
  "accepted e s = (reaches_engine s \<and> result_text e s \<noteq> [])"

text \<open>A text with something in it and no white space at either end.\<close>

definition trimmed :: "string \<Rightarrow> bool" where
  "trimmed x = (x \<noteq> [] \<and> \<not> isspace (hd x) \<and> \<not> isspace (last x))"

subsection \<open>Example surroundings\<close>

text \<open>
  A working device with an engine that hears "hello world"; the same with an engine that
  raises; and a device that cannot be opened.
\<close>

definition env_ok :: env where
  "env_ok = \<lparr>device = Available, engine = (\<lambda>_. Inr ''hello world''), now = ''09:41 AM''\<rparr>"

definition env_engine_fails :: env where
  "env_engine_fails =
     \<lparr>device = Available, engine = (\<lambda>_. Inl EngineFailure), now = ''09:41 AM''\<rparr>"

definition env_no_device :: env where
  "env_no_device =
     \<lparr>device = OpenFails, engine = (\<lambda>_. Inr ''hello world''), now = ''09:41 AM''\<rparr>"

text \<open>An engine whose text comes with white space around it.\<close>

definition env_padded :: env where
  "env_padded =
     \<lparr>device = Available, engine = (\<lambda>_. Inr ''  hello world ''), now = ''09:41 AM''\<rparr>"

text \<open>
  A momentary recording in progress, with the given chunks captured so far: the state after
  the hold key went down at the start of the program and the stream delivered the chunks.
\<close>

definition holding :: "real list list \<Rightarrow> state" where
  "holding chunks =
     \<lparr>recording = True, toggle_mode = False, shift_held = False, audio_data = chunks,
      stream = Some 0, streams = [Active], history = [], effects = []\<rparr>"

text \<open>
  Two schedules. In the first, a momentary recording is stopped by the hold key going up,
  the stopping thread gets as far as \<^verbatim>\<open>recording = False\<close>, and the hold key goes down
  again before the thread stops the stream. In the second, a continuous recording is started
  and the hold key goes down again, up to the point where \<^verbatim>\<open>on_press\<close> is about to
  clear \<^verbatim>\<open>toggle_mode\<close>.
\<close>

definition overlap_schedule :: "(env \<times> action) list" where
  "overlap_schedule = map (Pair env_ok)
     [Event (Press Hold), Listen, Listen, Listen, Listen, Listen, Listen, Listen,
      Event (Release Hold), Listen, Listen, Listen,
      Work 0, Work 0,
      Event (Press Hold), Listen, Listen, Listen, Listen, Listen, Listen, Listen]"

definition continuous_stop_schedule :: "(env \<times> action) list" where
  "continuous_stop_schedule = map (Pair env_ok)
     [Event (Press Shift), Listen, Listen,
      Event (Press Hold), Listen, Listen, Listen, Listen, Listen, Listen, Listen, Listen,
      Event (Press Hold), Listen, Listen]"

text \<open>
  A third schedule: the hold key goes up during a momentary recording, and before the
  stopping thread has run, shift and the hold key go down; then the thread clears
  \<^verbatim>\<open>recording\<close>.
\<close>

definition late_stop_schedule :: "(env \<times> action) list" where
  "late_stop_schedule = map (Pair env_ok)
     [Event (Press Hold), Listen, Listen, Listen, Listen, Listen, Listen, Listen,
      Event (Release Hold), Listen, Listen, Listen,
      Event (Press Shift), Listen, Listen,
      Event (Press Hold), Listen, Listen, Listen, Listen,
      Work 0, Work 0]"

section \<open>Properties\<close>

subsection \<open>White space\<close>

lemma last_dropWhile: "dropWhile P xs \<noteq> [] \<Longrightarrow> last (dropWhile P xs) = last xs"
  by (induction xs) (auto split: if_splits)

lemma strip_last: "strip s \<noteq> [] \<Longrightarrow> \<not> isspace (last (strip s))"
proof -
  assume ne: "strip s \<noteq> []"
  let ?d = "dropWhile isspace (rev (dropWhile isspace s))"
  from ne have d: "?d \<noteq> []" by (simp add: strip_def)
  then have "\<not> isspace (hd ?d)" by (rule hd_dropWhile)
  moreover have "last (strip s) = hd ?d" using d by (simp add: strip_def last_rev)
  ultimately show ?thesis by simp
qed

lemma strip_hd: "strip s \<noteq> [] \<Longrightarrow> \<not> isspace (hd (strip s))"
proof -
  assume ne: "strip s \<noteq> []"
  let ?c = "dropWhile isspace s"
  let ?d = "dropWhile isspace (rev ?c)"
  from ne have d: "?d \<noteq> []" by (simp add: strip_def)
  then have c: "?c \<noteq> []" by (auto dest: set_dropWhileD)
  have "hd (strip s) = last ?d" using d by (simp add: strip_def hd_rev)
  also have "\<dots> = last (rev ?c)" using d by (rule last_dropWhile)
  also have "\<dots> = hd ?c" using c by (simp add: last_rev)
  finally show ?thesis using hd_dropWhile [OF c] by simp
qed

lemma strip_blank: "list_all isspace s \<Longrightarrow> strip s = []"
  by (auto simp add: strip_def list_all_iff dest: set_dropWhileD)

lemma strip_decomp:
  "\<exists>pre post. s = pre @ strip s @ post \<and> list_all isspace pre \<and> list_all isspace post"
proof -
  let ?c = "dropWhile isspace s"
  have 1: "s = takeWhile isspace s @ ?c" by simp
  have "rev ?c = takeWhile isspace (rev ?c) @ dropWhile isspace (rev ?c)" by simp
  then have "rev (rev ?c) = rev (takeWhile isspace (rev ?c) @ dropWhile isspace (rev ?c))"
    by (rule arg_cong)
  then have 2: "?c = strip s @ rev (takeWhile isspace (rev ?c))"
    by (simp only: rev_rev_ident rev_append strip_def)
  have "s = takeWhile isspace s @ strip s @ rev (takeWhile isspace (rev ?c))"
    using 1 2 by metis
  moreover have "list_all isspace (takeWhile isspace s)"
    by (auto simp add: list_all_iff dest: set_takeWhileD)
  moreover have "list_all isspace (rev (takeWhile isspace (rev ?c)))"
    by (auto simp add: list_all_iff dest: set_takeWhileD)
  ultimately show ?thesis by blast
qed

lemma strip_hello: "strip ''hello world'' = ''hello world''"
  by (simp add: strip_def isspace_def)

subsection \<open>What the pipeline leaves alone\<close>

lemma tp_fields:
  "recording (snd (transcribe_and_paste e a s)) = recording s"
  "toggle_mode (snd (transcribe_and_paste e a s)) = toggle_mode s"
  "shift_held (snd (transcribe_and_paste e a s)) = shift_held s"
  "stream (snd (transcribe_and_paste e a s)) = stream s"
  "streams (snd (transcribe_and_paste e a s)) = streams s"
  by (auto simp: transcribe_and_paste_def Let_def split: sum.splits)

lemma tr_fields:
  "recording (snd (transcribe_and_record e a s)) = recording s"
  "toggle_mode (snd (transcribe_and_record e a s)) = toggle_mode s"
  "shift_held (snd (transcribe_and_record e a s)) = shift_held s"
  "stream (snd (transcribe_and_record e a s)) = stream s"
  "streams (snd (transcribe_and_record e a s)) = streams s"
  by (auto simp: transcribe_and_record_def Let_def split: sum.splits)

lemma stop_fields:
  "recording (snd (stop_recording p e s)) = False"
  "toggle_mode (snd (stop_recording p e s)) = toggle_mode s"
  "shift_held (snd (stop_recording p e s)) = shift_held s"
  by (cases p; auto simp: stop_recording_def stop_recording_cli_def stop_recording_app_def
        stop_and_close_def Let_def tp_fields tr_fields split: option.splits)+

lemma recording_start: "recording (snd (start_recording e s))"
  by (cases "device e") (auto simp: start_recording_def Let_def)

lemma toggle_start: "toggle_mode (snd (start_recording e s)) = toggle_mode s"
  by (cases "device e") (auto simp: start_recording_def Let_def)

subsection \<open>Capture sessions\<close>

lemma filter_update_le1:
  "Active \<notin> set (xs[i := Closed]) \<Longrightarrow> length (filter (\<lambda>st. st = Active) xs) \<le> 1"
proof (induction xs arbitrary: i)
  case Nil
  then show ?case by simp
next
  case (Cons x xs)
  show ?case
  proof (cases i)
    case 0
    with Cons.prems have "Active \<notin> set xs" by simp
    then have "filter (\<lambda>st. st = Active) xs = []" by (auto simp: filter_empty_conv)
    then show ?thesis by simp
  next
    case (Suc j)
    with Cons.prems have "x \<noteq> Active" and "Active \<notin> set (xs[j := Closed])" by auto
    then show ?thesis using Cons.IH [of j] by simp
  qed
qed

lemma no_active_sessions: "Active \<notin> set (streams s) \<Longrightarrow> active_sessions s = 0"
  by (auto simp: active_sessions_def filter_empty_conv)

lemma not_in_update: "Active \<notin> set xs \<Longrightarrow> Active \<notin> set (xs[i := Closed])"
  using set_update_subset_insert [of xs i Closed] by auto

lemma sessions_ok_le1:
  assumes "sessions_ok s"
  shows "active_sessions s \<le> 1"
proof (cases "recording s")
  case False
  with assms show ?thesis by (simp add: sessions_ok_def no_active_sessions)
next
  case True
  show ?thesis
  proof (cases "stream s")
    case None
    with True assms show ?thesis by (simp add: sessions_ok_def no_active_sessions)
  next
    case (Some i)
    with True assms have "Active \<notin> set ((streams s)[i := Closed])"
      by (simp add: sessions_ok_def)
    then show ?thesis unfolding active_sessions_def by (rule filter_update_le1)
  qed
qed

lemma sessions_ok_idle: "sessions_ok s \<Longrightarrow> \<not> recording s \<Longrightarrow> active_sessions s = 0"
  by (simp add: sessions_ok_def no_active_sessions)

lemma sessions_ok_start: "sessions_ok s \<Longrightarrow> sessions_ok (snd (start_recording e s))"
  by (cases "device e")
     (auto simp: sessions_ok_def start_recording_def Let_def list_update_append
           split: option.splits if_splits dest: not_in_update)

lemma sessions_ok_stop: "sessions_ok s \<Longrightarrow> sessions_ok (snd (stop_recording p e s))"
  by (cases p; auto simp: sessions_ok_def stop_recording_def stop_recording_cli_def
        stop_recording_app_def stop_and_close_def Let_def tp_fields tr_fields
        split: option.splits if_splits)


lemma sessions_ok_upd:
  "sessions_ok (s\<lparr>toggle_mode := b\<rparr>) = sessions_ok s"
  "sessions_ok (s\<lparr>shift_held := b\<rparr>) = sessions_ok s"
  "sessions_ok (s\<lparr>effects := es\<rparr>) = sessions_ok s"
  "sessions_ok (s\<lparr>history := h\<rparr>) = sessions_ok s"
  "sessions_ok (s\<lparr>audio_data := a\<rparr>) = sessions_ok s"
  by (simp_all add: sessions_ok_def split: option.splits)

lemma sessions_ok_spawn: "sessions_ok s \<Longrightarrow> sessions_ok (spawn_stop p e s)"
proof -
  assume "sessions_ok s"
  then have "sessions_ok (s\<lparr>effects := effects s @ [ThreadStart]\<rparr>)"
    by (simp add: sessions_ok_upd)
  then show ?thesis unfolding spawn_stop_def by (rule sessions_ok_stop)
qed

lemma spawn_fields:
  "recording (spawn_stop p e s) = False"
  "toggle_mode (spawn_stop p e s) = toggle_mode s"
  "shift_held (spawn_stop p e s) = shift_held s"
  by (simp_all add: spawn_stop_def stop_fields)

lemma sessions_ok_step: "sessions_ok s \<Longrightarrow> sessions_ok (snd (step p e ev s))"
proof (cases ev)
  case (Press k)
  assume ok: "sessions_ok s"
  show ?thesis using Press ok
    by (cases k) (simp_all add: on_press_def sessions_ok_spawn sessions_ok_start sessions_ok_upd)
next
  case (Release k)
  assume ok: "sessions_ok s"
  show ?thesis using Release ok
    by (cases k) (simp_all add: on_release_def sessions_ok_spawn sessions_ok_upd)
next
  case (Frames x)
  assume ok: "sessions_ok s"
  then show ?thesis using Frames by (simp add: callback_def sessions_ok_upd)
next
  case ClearHistory
  assume ok: "sessions_ok s"
  then show ?thesis using ClearHistory by (simp add: clear_history_def sessions_ok_upd)
qed


lemma toggle_step:
  assumes "toggle_mode s \<longrightarrow> recording s"
  shows "toggle_mode (snd (step p e ev s)) \<longrightarrow> recording (snd (step p e ev s))"
proof (cases ev)
  case (Press k)
  with assms show ?thesis
    by (cases k) (simp_all add: on_press_def spawn_fields recording_start toggle_start)
next
  case (Release k)
  with assms show ?thesis
    by (cases k) (simp_all add: on_release_def spawn_fields)
next
  case (Frames x)
  with assms show ?thesis by (auto simp add: callback_def)
next
  case ClearHistory
  with assms show ?thesis by (simp add: clear_history_def)
qed

lemma run_invariant:
  assumes stp: "\<And>s e ev. P s \<Longrightarrow> P (snd (step p e ev s))" and "P s"
  shows "P (snd (run p xs s))"
  using assms(2)
proof (induction xs arbitrary: s)
  case Nil
  then show ?case by simp
next
  case (Cons x xs)
  obtain r s1 where st: "step p (fst x) (snd x) s = (r, s1)"
    by (cases "step p (fst x) (snd x) s")
  have "P (snd (step p (fst x) (snd x) s))" using Cons.prems by (rule stp)
  with st have "P s1" by simp
  then have "P (snd (run p xs s1))" by (rule Cons.IH)
  with st \<open>P s1\<close> show ?case by (cases r) simp_all
qed

lemma step_edge:
  "mode_of (snd (step p e ev s)) = mode_of s \<or>
   edge (mode_of s) (mode_of (snd (step p e ev s)))"
proof (cases ev)
  case (Press k)
  then show ?thesis
    by (cases k)
       (simp_all add: on_press_def spawn_fields recording_start toggle_start mode_of_def edge_def)
next
  case (Release k)
  then show ?thesis
    by (cases k) (simp_all add: on_release_def spawn_fields mode_of_def edge_def)
next
  case (Frames x)
  then show ?thesis by (simp add: callback_def mode_of_def)
next
  case ClearHistory
  then show ?thesis by (simp add: clear_history_def mode_of_def)
qed

lemma sessions_ok_run: "sessions_ok (snd (run p xs init))"
proof (rule run_invariant)
  show "sessions_ok init" by (simp add: sessions_ok_def init_def)
next
  fix s :: state and e ev
  assume "sessions_ok s"
  then show "sessions_ok (snd (step p e ev s))" by (rule sessions_ok_step)
qed

lemma toggle_run: "toggle_mode (snd (run p xs init)) \<longrightarrow> recording (snd (run p xs init))"
proof (rule run_invariant [where P = "\<lambda>s::state. toggle_mode s \<longrightarrow> recording s"])
  show "toggle_mode init \<longrightarrow> recording init" by (simp add: init_def)
next
  fix s :: state and e ev
  assume "toggle_mode s \<longrightarrow> recording s"
  then show "toggle_mode (snd (step p e ev s)) \<longrightarrow> recording (snd (step p e ev s))"
    by (rule toggle_step)
qed

subsection \<open>Threads, statement by statement\<close>

lemma listen_edge:
  "mode_of (glob (listen e c)) = mode_of (glob c) \<or>
   handler_edge (mode_of (glob c)) (mode_of (glob (listen e c)))"
  by (cases "listener c")
     (auto simp add: listen_def Let_def mode_of_def handler_edge_def split: option.splits)

lemma work_edge:
  "mode_of (snd (work p e w g)) = mode_of g \<or>
   worker_edge (mode_of g) (mode_of (snd (work p e w g)))"
  by (cases "w_pc w")
     (auto simp add: work_def mode_of_def worker_edge_def split: option.splits sum.splits)

lemma sched_append: "sched p (xs @ ys) c = sched p ys (sched p xs c)"
  by (induction xs arbitrary: c) simp_all

lemma listen_resting: "lresting (listener c) \<Longrightarrow> listen e c = c"
  by (cases "listener c") (simp_all add: listen_def)

lemma sched_listen_resting:
  "lresting (listener c) \<Longrightarrow> sched p (replicate n (e, Listen)) c = c"
  by (induction n) (simp_all add: listen_resting)

lemma work_finished: "wfinished (w_pc w) \<Longrightarrow> work p e w g = (w, g)"
  by (cases "w_pc w") (simp_all add: work_def)

lemma sys_same: "c\<lparr>glob := glob c, workers := (workers c)[i := workers c ! i]\<rparr> = c"
  by simp

lemma sched_work_finished:
  assumes "i < length (workers c)" and "wfinished (w_pc (workers c ! i))"
  shows "sched p (replicate n (e, Work i)) c = c"
  using assms by (induction n) (simp_all add: work_finished)

lemma sched_work:
  assumes "i < length (workers c)"
  shows "sched p (replicate n (e, Work i)) c =
           c\<lparr>glob := snd (works p e n (workers c ! i) (glob c)),
             workers := (workers c)[i := fst (works p e n (workers c ! i) (glob c))]\<rparr>"
  using assms
proof (induction n arbitrary: c)
  case 0
  then show ?case by simp
next
  case (Suc n)
  let ?c = "sstep p e (Work i) c"
  have len: "i < length (workers ?c)" using Suc.prems by simp
  have "sched p (replicate (Suc n) (e, Work i)) c = sched p (replicate n (e, Work i)) ?c"
    by simp
  also have "\<dots> = ?c\<lparr>glob := snd (works p e n (workers ?c ! i) (glob ?c)),
             workers := (workers ?c)[i := fst (works p e n (workers ?c ! i) (glob ?c))]\<rparr>"
    using len by (rule Suc.IH)
  finally show ?case using Suc.prems by simp
qed

lemmas work_eval = eval_nat_numeral work_def new_worker_def stop_and_close_def paste_def Let_def

lemma works_stop_cli:
  "snd (works Dictator e 16 new_worker g) = snd (stop_recording_cli e g) \<and>
   wfinished (w_pc (fst (works Dictator e 16 new_worker g)))"
proof (cases "recording g")
  case False
  then show ?thesis by (simp add: work_eval stop_recording_cli_def)
next
  case rec: True
  show ?thesis
  proof (cases "stream g")
    case None
    with rec show ?thesis by (simp add: work_eval stop_recording_cli_def)
  next
    case (Some i)
    show ?thesis
    proof (cases "audio_data g = []")
      case True
      with rec Some show ?thesis by (simp add: work_eval stop_recording_cli_def)
    next
      case ne: False
      show ?thesis
      proof (cases "engine e (flatten (audio_data g))")
        case (Inl err)
        with rec Some ne show ?thesis
          by (simp add: work_eval stop_recording_cli_def transcribe_and_paste_def)
      next
        case (Inr raw)
        with rec Some ne show ?thesis
          by (cases "strip raw = []")
             (simp_all add: work_eval stop_recording_cli_def transcribe_and_paste_def)
      qed
    qed
  qed
qed

lemma works_stop_app:
  "snd (works DictatorApp e 16 new_worker g) = snd (stop_recording_app e g) \<and>
   wfinished (w_pc (fst (works DictatorApp e 16 new_worker g)))"
proof (cases "recording g")
  case False
  then show ?thesis by (simp add: work_eval stop_recording_app_def)
next
  case rec: True
  show ?thesis
  proof (cases "stream g")
    case None
    with rec show ?thesis by (simp add: work_eval stop_recording_app_def)
  next
    case (Some i)
    show ?thesis
    proof (cases "audio_data g = []")
      case True
      with rec Some show ?thesis by (simp add: work_eval stop_recording_app_def)
    next
      case ne: False
      show ?thesis
      proof (cases "duration (flatten (audio_data g)) < MIN_AUDIO_DURATION")
        case True
        with rec Some ne show ?thesis by (simp add: work_eval stop_recording_app_def)
      next
        case long: False
        show ?thesis
        proof (cases "rms_energy (flatten (audio_data g)) < MIN_AUDIO_ENERGY")
          case True
          with rec Some ne long show ?thesis by (simp add: work_eval stop_recording_app_def)
        next
          case loud: False
          show ?thesis
          proof (cases "engine e (flatten (audio_data g))")
            case (Inl err)
            with rec Some ne long loud show ?thesis
              by (simp add: work_eval stop_recording_app_def transcribe_and_record_def)
          next
            case (Inr raw)
            with rec Some ne long loud show ?thesis
              by (cases "strip raw = []")
                 (simp_all add: work_eval stop_recording_app_def transcribe_and_record_def)
          qed
        qed
      qed
    qed
  qed
qed

lemma works_stop:
  "snd (works p e 16 new_worker g) = snd (stop_recording p e g) \<and>
   wfinished (w_pc (fst (works p e 16 new_worker g)))"
  using works_stop_cli works_stop_app by (cases p) (simp_all add: stop_recording_def)

lemmas listen_eval = eval_nat_numeral listen_def Let_def

lemma handle_start:
  assumes "listener c = LStartTest"
  shows "sched p (replicate 5 (e, Listen)) c =
           c\<lparr>glob := snd (start_recording e (glob c)),
             listener := lafter (fst (start_recording e (glob c)))\<rparr>"
proof (cases "recording (glob c)")
  case True
  with assms show ?thesis by (simp add: listen_eval start_recording_def lafter_def)
next
  case False
  with assms show ?thesis
    by (cases "device e") (simp_all add: listen_eval start_recording_def lafter_def)
qed

lemma handle_press_spawn:
  assumes "listener c = LIdle" and "toggle_mode (glob c)"
  shows "sched p ((e, Event (Press Hold)) # replicate 8 (e, Listen)) c =
           c\<lparr>glob := (glob c)\<lparr>toggle_mode := False,
                              effects := effects (glob c) @ [ThreadStart]\<rparr>,
             listener := LIdle, workers := workers c @ [new_worker]\<rparr>"
  using assms by (simp add: listen_eval)

lemma handle_press_start:
  assumes "listener c = LIdle" and "\<not> toggle_mode (glob c)"
  shows "sched p ((e, Event (Press Hold)) # replicate 8 (e, Listen)) c =
           c\<lparr>glob := snd (on_press p e Hold (glob c)),
             listener := lafter (fst (on_press p e Hold (glob c)))\<rparr>"
proof (cases "shift_held (glob c)")
  case True
  let ?c = "c\<lparr>glob := (glob c)\<lparr>toggle_mode := True\<rparr>, listener := LStartTest\<rparr>"
  have split: "(e, Event (Press Hold)) # replicate 8 (e, Listen) =
      ((e, Event (Press Hold)) # replicate 3 (e, Listen)) @ replicate 5 (e, Listen)"
    by (simp add: eval_nat_numeral)
  have "sched p ((e, Event (Press Hold)) # replicate 3 (e, Listen)) c = ?c"
    using assms True by (simp add: listen_eval)
  then have "sched p ((e, Event (Press Hold)) # replicate 8 (e, Listen)) c =
          sched p (replicate 5 (e, Listen)) ?c"
    unfolding split sched_append by simp
  also have "\<dots> = ?c\<lparr>glob := snd (start_recording e (glob ?c)),
             listener := lafter (fst (start_recording e (glob ?c)))\<rparr>"
    by (rule handle_start) simp
  finally show ?thesis using assms True by (simp add: on_press_def)
next
  case False
  let ?c = "c\<lparr>listener := LStartTest\<rparr>"
  let ?d = "?c\<lparr>glob := snd (start_recording e (glob ?c)),
             listener := lafter (fst (start_recording e (glob ?c)))\<rparr>"
  have split: "(e, Event (Press Hold)) # replicate 8 (e, Listen) =
      ((e, Event (Press Hold)) # replicate 2 (e, Listen)) @ replicate 5 (e, Listen) @
      replicate 1 (e, Listen)"
    by (simp add: eval_nat_numeral)
  have "sched p ((e, Event (Press Hold)) # replicate 2 (e, Listen)) c = ?c"
    using assms False by (simp add: listen_eval)
  then have "sched p ((e, Event (Press Hold)) # replicate 8 (e, Listen)) c =
          sched p (replicate 1 (e, Listen)) (sched p (replicate 5 (e, Listen)) ?c)"
    unfolding split sched_append by simp
  also have "sched p (replicate 5 (e, Listen)) ?c = ?d"
    by (rule handle_start) simp
  also have "sched p (replicate 1 (e, Listen)) ?d = ?d"
    by (rule sched_listen_resting) (simp add: lafter_def split: option.splits)
  finally show ?thesis using assms False by (simp add: on_press_def)
qed

lemma handle_press_shift:
  assumes "listener c = LIdle"
  shows "sched p ((e, Event (Press Shift)) # replicate 8 (e, Listen)) c =
           c\<lparr>glob := (glob c)\<lparr>shift_held := True\<rparr>, listener := LIdle\<rparr>"
  using assms by (simp add: listen_eval)

lemma handle_press_other:
  assumes "listener c = LIdle"
  shows "sched p ((e, Event (Press Other)) # replicate 8 (e, Listen)) c = c"
  using assms by (simp add: listen_eval)

lemma handle_release_spawn:
  assumes "listener c = LIdle" and "\<not> toggle_mode (glob c)" and "\<not> shift_held (glob c)"
  shows "sched p ((e, Event (Release Hold)) # replicate 8 (e, Listen)) c =
           c\<lparr>glob := (glob c)\<lparr>effects := effects (glob c) @ [ThreadStart]\<rparr>,
             listener := LIdle, workers := workers c @ [new_worker]\<rparr>"
  using assms by (simp add: listen_eval)

lemma handle_release_hold:
  assumes "listener c = LIdle" and "toggle_mode (glob c) \<or> shift_held (glob c)"
  shows "sched p ((e, Event (Release Hold)) # replicate 8 (e, Listen)) c = c"
proof (cases "toggle_mode (glob c)")
  case True
  with assms(1) show ?thesis by (simp add: listen_eval)
next
  case False
  with assms have "shift_held (glob c)" by simp
  with assms(1) show ?thesis by (simp add: listen_eval)
qed

lemma handle_release_shift:
  assumes "listener c = LIdle"
  shows "sched p ((e, Event (Release Shift)) # replicate 8 (e, Listen)) c =
           c\<lparr>glob := (glob c)\<lparr>shift_held := False\<rparr>, listener := LIdle\<rparr>"
  using assms by (simp add: listen_eval)

lemma handle_release_other:
  assumes "listener c = LIdle"
  shows "sched p ((e, Event (Release Other)) # replicate 8 (e, Listen)) c = c"
  using assms by (simp add: listen_eval)

lemma finish_finished:
  assumes "n \<le> length (workers c)"
    and "\<forall>i<n. wfinished (w_pc (workers c ! i))"
  shows "sched p (concat (map (\<lambda>i. replicate 16 (e, Work i)) [0..<n])) c = c"
  using assms
proof (induction n)
  case 0
  then show ?case by simp
next
  case (Suc n)
  have "sched p (concat (map (\<lambda>i. replicate 16 (e, Work i)) [0..<n])) c = c"
    using Suc.prems by (intro Suc.IH) simp_all
  moreover have "sched p (replicate 16 (e, Work n)) c = c"
    using Suc.prems by (intro sched_work_finished) simp_all
  ultimately show ?case by (simp add: sched_append)
qed

lemma finish_quiet:
  assumes "list_all (\<lambda>w. wfinished (w_pc w)) (workers c)"
  shows "sched p (concat (map (\<lambda>i. replicate 16 (e, Work i)) [0..<length (workers c)])) c = c"
  using assms by (intro finish_finished) (simp_all add: list_all_length)

lemma finish_spawned:
  assumes "workers c = ws @ [new_worker]" and "list_all (\<lambda>w. wfinished (w_pc w)) ws"
  shows "glob (sched p (concat (map (\<lambda>i. replicate 16 (e, Work i))
           [0..<length (workers c)])) c) = snd (stop_recording p e (glob c))"
    and "listener (sched p (concat (map (\<lambda>i. replicate 16 (e, Work i))
           [0..<length (workers c)])) c) = listener c"
    and "list_all (\<lambda>w. wfinished (w_pc w)) (workers (sched p (concat (map
           (\<lambda>i. replicate 16 (e, Work i)) [0..<length (workers c)])) c))"
proof -
  let ?n = "length ws"
  have len: "length (workers c) = Suc ?n" using assms(1) by simp
  have first: "sched p (concat (map (\<lambda>i. replicate 16 (e, Work i)) [0..<?n])) c = c"
    using assms by (intro finish_finished) (simp_all add: list_all_length nth_append)
  have last: "sched p (replicate 16 (e, Work ?n)) c =
      c\<lparr>glob := snd (works p e 16 (workers c ! ?n) (glob c)),
        workers := (workers c)[?n := fst (works p e 16 (workers c ! ?n) (glob c))]\<rparr>"
    using len by (intro sched_work) simp
  have nth: "workers c ! ?n = new_worker" using assms(1) by simp
  have all: "sched p (concat (map (\<lambda>i. replicate 16 (e, Work i)) [0..<length (workers c)])) c =
      c\<lparr>glob := snd (works p e 16 new_worker (glob c)),
        workers := ws @ [fst (works p e 16 new_worker (glob c))]\<rparr>"
    using first last nth assms(1) by (simp add: len sched_append)
  show "glob (sched p (concat (map (\<lambda>i. replicate 16 (e, Work i))
           [0..<length (workers c)])) c) = snd (stop_recording p e (glob c))"
    unfolding all using works_stop [of p e "glob c"] by simp
  show "listener (sched p (concat (map (\<lambda>i. replicate 16 (e, Work i))
           [0..<length (workers c)])) c) = listener c"
    unfolding all by simp
  show "list_all (\<lambda>w. wfinished (w_pc w)) (workers (sched p (concat (map
           (\<lambda>i. replicate 16 (e, Work i)) [0..<length (workers c)])) c))"
    unfolding all using works_stop [of p e "glob c"] assms(2) by simp
qed

lemma handled:
  assumes "listener c = LIdle"
  shows "sched p ((e, Event ev) # replicate 8 (e, Listen)) c =
           c\<lparr>glob := snd (step p e ev (glob c)),
             listener := lafter (fst (step p e ev (glob c)))\<rparr> \<or>
         (\<exists>g. sched p ((e, Event ev) # replicate 8 (e, Listen)) c =
                c\<lparr>glob := g\<lparr>effects := effects g @ [ThreadStart]\<rparr>,
                  listener := LIdle, workers := workers c @ [new_worker]\<rparr> \<and>
              step p e ev (glob c) = (None, spawn_stop p e g))"
proof (cases ev)
  case (Press k)
  show ?thesis
  proof (cases k)
    case Shift
    with Press assms show ?thesis
      by (simp only: handle_press_shift) (simp add: on_press_def lafter_def)
  next
    case Hold
    show ?thesis
    proof (cases "toggle_mode (glob c)")
      case True
      have "step p e ev (glob c) = (None, spawn_stop p e ((glob c)\<lparr>toggle_mode := False\<rparr>))"
        using Press Hold True by (simp add: on_press_def)
      moreover have "sched p ((e, Event ev) # replicate 8 (e, Listen)) c =
          c\<lparr>glob := ((glob c)\<lparr>toggle_mode := False\<rparr>)\<lparr>effects :=
                  effects ((glob c)\<lparr>toggle_mode := False\<rparr>) @ [ThreadStart]\<rparr>,
             listener := LIdle, workers := workers c @ [new_worker]\<rparr>"
        using Press Hold handle_press_spawn [OF assms True, of p e] by simp
      ultimately show ?thesis by blast
    next
      case False
      then show ?thesis using Press Hold handle_press_start [OF assms False, of p e] by simp
    qed
  next
    case Other
    with Press assms show ?thesis
      by (simp only: handle_press_other) (simp add: on_press_def lafter_def)
  qed
next
  case (Release k)
  show ?thesis
  proof (cases k)
    case Shift
    with Release assms show ?thesis
      by (simp only: handle_release_shift) (simp add: on_release_def lafter_def)
  next
    case Hold
    show ?thesis
    proof (cases "toggle_mode (glob c) \<or> shift_held (glob c)")
      case True
      then have "step p e ev (glob c) = (None, glob c)"
        using Release Hold by (auto simp add: on_release_def)
      then show ?thesis
        using Release Hold assms handle_release_hold [OF assms True, of p e]
        by (simp add: lafter_def)
    next
      case False
      then have f: "\<not> toggle_mode (glob c)" "\<not> shift_held (glob c)" by simp_all
      have "step p e ev (glob c) = (None, spawn_stop p e (glob c))"
        using Release Hold f by (simp add: on_release_def)
      moreover have "sched p ((e, Event ev) # replicate 8 (e, Listen)) c =
          c\<lparr>glob := (glob c)\<lparr>effects := effects (glob c) @ [ThreadStart]\<rparr>,
             listener := LIdle, workers := workers c @ [new_worker]\<rparr>"
        using Release Hold handle_release_spawn [OF assms f, of p e] by simp
      ultimately show ?thesis by blast
    qed
  next
    case Other
    with Release assms show ?thesis
      by (simp only: handle_release_other) (simp add: on_release_def lafter_def)
  qed
next
  case (Frames x)
  have "sched p ((e, Event ev) # replicate 8 (e, Listen)) c = sstep p e (Event ev) c"
    using assms Frames by (simp add: sched_listen_resting)
  then show ?thesis using assms Frames by (simp add: lafter_def)
next
  case ClearHistory
  have "sched p ((e, Event ev) # replicate 8 (e, Listen)) c = sstep p e (Event ev) c"
    using assms ClearHistory by (simp add: sched_listen_resting)
  then show ?thesis using assms ClearHistory by (simp add: lafter_def)
qed

lemma lresting_lafter: "lresting (lafter r)"
  by (cases r) (simp_all add: lafter_def)

lemma serial_event_idle:
  assumes "listener c = LIdle" and "list_all (\<lambda>w. wfinished (w_pc w)) (workers c)"
  shows "glob (serial_event p e ev c) = snd (step p e ev (glob c)) \<and>
         quiet (serial_event p e ev c)"
proof -
  let ?c1 = "sched p ((e, Event ev) # replicate 8 (e, Listen)) c"
  from handled [OF assms(1), of p e ev] consider
    (plain) "?c1 = c\<lparr>glob := snd (step p e ev (glob c)),
                     listener := lafter (fst (step p e ev (glob c)))\<rparr>"
    | (spawned) g where
        "?c1 = c\<lparr>glob := g\<lparr>effects := effects g @ [ThreadStart]\<rparr>,
                  listener := LIdle, workers := workers c @ [new_worker]\<rparr>"
        "step p e ev (glob c) = (None, spawn_stop p e g)"
    by blast
  then show ?thesis
  proof cases
    case plain
    have fin: "list_all (\<lambda>w. wfinished (w_pc w)) (workers ?c1)"
      unfolding plain using assms(2) by simp
    have "serial_event p e ev c = ?c1"
      unfolding serial_event_def Let_def using fin by (rule finish_quiet)
    then show ?thesis
      unfolding plain using assms(2) by (simp add: quiet_def lresting_lafter)
  next
    case spawned
    have w: "workers ?c1 = workers c @ [new_worker]" unfolding spawned(1) by simp
    note f = finish_spawned [OF w assms(2), of p e]
    have se: "serial_event p e ev c =
        sched p (concat (map (\<lambda>i. replicate 16 (e, Work i)) [0..<length (workers ?c1)])) ?c1"
      by (simp add: serial_event_def Let_def)
    have "glob (serial_event p e ev c) = snd (stop_recording p e (glob ?c1))"
      unfolding se by (rule f(1))
    also have "\<dots> = spawn_stop p e g" unfolding spawned(1) by (simp add: spawn_stop_def)
    finally have g: "glob (serial_event p e ev c) = snd (step p e ev (glob c))"
      using spawned(2) by simp
    have "listener (serial_event p e ev c) = listener ?c1" unfolding se by (rule f(2))
    then have l: "listener (serial_event p e ev c) = LIdle" unfolding spawned(1) by simp
    have "list_all (\<lambda>w. wfinished (w_pc w)) (workers (serial_event p e ev c))"
      unfolding se by (rule f(3))
    with g l show ?thesis by (simp add: quiet_def)
  qed
qed

lemma serial_event_dead:
  assumes "listener c = LDead err" and "list_all (\<lambda>w. wfinished (w_pc w)) (workers c)"
  shows "(glob (serial_event p e ev c) = snd (step p e ev (glob c)) \<or>
          glob (serial_event p e ev c) = glob c) \<and>
         quiet (serial_event p e ev c)"
proof -
  let ?c1 = "sched p ((e, Event ev) # replicate 8 (e, Listen)) c"
  have r: "lresting (listener (sstep p e (Event ev) c))"
    using assms(1) by (cases ev) simp_all
  have c1: "?c1 = sstep p e (Event ev) c"
    using r by (simp add: sched_listen_resting)
  have fin: "list_all (\<lambda>w. wfinished (w_pc w)) (workers ?c1)"
    unfolding c1 using assms by (cases ev) simp_all
  have "serial_event p e ev c = ?c1"
    unfolding serial_event_def Let_def using fin by (rule finish_quiet)
  then have se: "serial_event p e ev c = sstep p e (Event ev) c" using c1 by simp
  have "glob (sstep p e (Event ev) c) = snd (step p e ev (glob c)) \<or>
        glob (sstep p e (Event ev) c) = glob c"
    using assms(1) by (cases ev) simp_all
  moreover have "quiet (sstep p e (Event ev) c)"
    using r fin c1 by (simp add: quiet_def)
  ultimately show ?thesis unfolding se by simp
qed

lemma serial_event_quiet:
  assumes "quiet c"
  shows "(glob (serial_event p e ev c) = snd (step p e ev (glob c)) \<or>
          glob (serial_event p e ev c) = glob c) \<and>
         quiet (serial_event p e ev c)"
proof (cases "listener c")
  case LIdle
  then show ?thesis using assms serial_event_idle [of c p e ev] by (simp add: quiet_def)
next
  case (LDead err)
  then show ?thesis using assms serial_event_dead [of c err p e ev] by (simp add: quiet_def)
qed (insert assms, simp_all add: quiet_def)

lemma serial_invariant:
  assumes stp: "\<And>s e ev. P s \<Longrightarrow> P (snd (step p e ev s))"
    and "P (glob c)" and "quiet c"
  shows "P (glob (serial p xs c)) \<and> quiet (serial p xs c)"
  using assms(2,3)
proof (induction xs arbitrary: c)
  case Nil
  then show ?case by simp
next
  case (Cons x xs)
  let ?c = "serial_event p (fst x) (snd x) c"
  from serial_event_quiet [OF Cons.prems(2), of p "fst x" "snd x"]
  have g: "glob ?c = snd (step p (fst x) (snd x) (glob c)) \<or> glob ?c = glob c"
    and q: "quiet ?c" by simp_all
  have "P (snd (step p (fst x) (snd x) (glob c)))" using Cons.prems(1) by (rule stp)
  with g Cons.prems(1) have "P (glob ?c)" by auto
  then have "P (glob (serial p xs ?c)) \<and> quiet (serial p xs ?c)" using q by (rule Cons.IH)
  then show ?case by simp
qed

lemma quiet_init: "quiet init_sys"
  by (simp add: quiet_def init_sys_def)

lemma sstep_edge:
  "mode_of (glob (sstep p e a c)) = mode_of (glob c) \<or>
   (a = Listen \<and> handler_edge (mode_of (glob c)) (mode_of (glob (sstep p e a c)))) \<or>
   ((\<exists>i. a = Work i) \<and> worker_edge (mode_of (glob c)) (mode_of (glob (sstep p e a c))))"
proof (cases a)
  case (Event ev)
  then show ?thesis
    by (cases ev) (simp_all add: callback_def clear_history_def mode_of_def)
next
  case Listen
  then show ?thesis using listen_edge [of e c] by simp
next
  case (Work i)
  then show ?thesis using work_edge [of p e "workers c ! i" "glob c"] by auto
qed

lemma serial_sessions_ok: "sessions_ok (glob (serial p xs init_sys))"
proof -
  have "sessions_ok (glob (serial p xs init_sys)) \<and> quiet (serial p xs init_sys)"
  proof (rule serial_invariant)
    show "sessions_ok (glob init_sys)" by (simp add: init_sys_def sessions_ok_def init_def)
    show "quiet init_sys" by (rule quiet_init)
  next
    fix s :: state and e ev
    assume "sessions_ok s"
    then show "sessions_ok (snd (step p e ev s))" by (rule sessions_ok_step)
  qed
  then show ?thesis by simp
qed

lemma serial_toggle:
  "toggle_mode (glob (serial p xs init_sys)) \<longrightarrow> recording (glob (serial p xs init_sys))"
proof -
  have "(toggle_mode (glob (serial p xs init_sys)) \<longrightarrow> recording (glob (serial p xs init_sys)))
        \<and> quiet (serial p xs init_sys)"
  proof (rule serial_invariant [where P = "\<lambda>s::state. toggle_mode s \<longrightarrow> recording s"])
    show "toggle_mode (glob init_sys) \<longrightarrow> recording (glob init_sys)"
      by (simp add: init_sys_def init_def)
    show "quiet init_sys" by (rule quiet_init)
  next
    fix s :: state and e ev
    assume "toggle_mode s \<longrightarrow> recording s"
    then show "toggle_mode (snd (step p e ev s)) \<longrightarrow> recording (snd (step p e ev s))"
      by (rule toggle_step)
  qed
  then show ?thesis by simp
qed

lemma serial_quiet: "quiet (serial p xs init_sys)"
proof -
  have "True \<and> quiet (serial p xs init_sys)"
    by (rule serial_invariant [where P = "\<lambda>s::state. True"]) (simp_all add: quiet_init)
  then show ?thesis by simp
qed

lemma serial_event_edge:
  assumes "quiet c"
  shows "mode_of (glob (serial_event p e ev c)) = mode_of (glob c) \<or>
         edge (mode_of (glob c)) (mode_of (glob (serial_event p e ev c)))"
  using serial_event_quiet [OF assms, of p e ev] step_edge [of p e ev "glob c"] by auto

subsection \<open>Modes and capture sessions\<close>

text \<open>
  Claim C1, as the code has it. In every schedule, a statement of a key handler leaves the
  mode as it is or moves it along \<open>Idle\<close> to \<open>Momentary\<close>, \<open>Idle\<close> to
  \<open>Continuous\<close>, \<open>Momentary\<close> to \<open>Continuous\<close> or \<open>Continuous\<close> to
  \<open>Momentary\<close>; a statement of a stopping thread leaves it or moves it to \<open>Idle\<close>; an
  arriving event leaves it. When every handler and every stopping thread runs to its end
  before the next event is taken up, then after any sequence of events at most one input
  stream is active, \<^verbatim>\<open>toggle_mode\<close> is set only while \<^verbatim>\<open>recording\<close> is, and from
  the state before an event to the state after it the mode stays or moves along \<open>Idle\<close> to
  \<open>Momentary\<close>, \<open>Momentary\<close> to \<open>Idle\<close>, \<open>Idle\<close> to \<open>Continuous\<close>,
  \<open>Continuous\<close> to \<open>Idle\<close> or \<open>Momentary\<close> to \<open>Continuous\<close>.
\<close>

theorem mode_transitions:
  "(mode_of (glob (sstep p e a c)) = mode_of (glob c) \<or>
    (a = Listen \<and> handler_edge (mode_of (glob c)) (mode_of (glob (sstep p e a c)))) \<or>
    ((\<exists>i. a = Work i) \<and> worker_edge (mode_of (glob c)) (mode_of (glob (sstep p e a c))))) \<and>
   active_sessions (glob (serial p xs init_sys)) \<le> 1 \<and>
   (toggle_mode (glob (serial p xs init_sys)) \<longrightarrow> recording (glob (serial p xs init_sys))) \<and>
   (\<forall>e' ev.
      mode_of (glob (serial_event p e' ev (serial p xs init_sys))) =
        mode_of (glob (serial p xs init_sys)) \<or>
      edge (mode_of (glob (serial p xs init_sys)))
           (mode_of (glob (serial_event p e' ev (serial p xs init_sys)))))"
proof -
  have 1: "active_sessions (glob (serial p xs init_sys)) \<le> 1"
    using serial_sessions_ok by (rule sessions_ok_le1)
  have 2: "\<forall>e' ev.
      mode_of (glob (serial_event p e' ev (serial p xs init_sys))) =
        mode_of (glob (serial p xs init_sys)) \<or>
      edge (mode_of (glob (serial p xs init_sys)))
           (mode_of (glob (serial_event p e' ev (serial p xs init_sys))))"
    using serial_event_edge [OF serial_quiet] by blast
  from sstep_edge [of p e a c] 1 serial_toggle [of p xs] 2 show ?thesis by blast
qed

text \<open>
  The theorem at shift down, hold key down, nothing overlapping: both flags are set and one
  stream is active; the hold key going down again leaves the mode \<open>Idle\<close>.
\<close>

lemmas sys_eval = serial_event_def init_sys_def init_def env_ok_def listen_def work_def
  new_worker_def Let_def eval_nat_numeral

theorem mode_transitions_witness:
  "toggle_mode (glob (serial DictatorApp [(env_ok, Press Shift), (env_ok, Press Hold)] init_sys)) \<and>
   recording (glob (serial DictatorApp [(env_ok, Press Shift), (env_ok, Press Hold)] init_sys)) \<and>
   active_sessions (glob (serial DictatorApp [(env_ok, Press Shift), (env_ok, Press Hold)]
     init_sys)) = 1 \<and>
   mode_of (glob (serial DictatorApp [(env_ok, Press Shift), (env_ok, Press Hold)] init_sys)) =
     Continuous \<and>
   mode_of (glob (serial_event DictatorApp env_ok (Press Hold)
     (serial DictatorApp [(env_ok, Press Shift), (env_ok, Press Hold)] init_sys))) = Idle \<and>
   edge Continuous Idle"
proof -
  note T = mode_transitions [of DictatorApp env_ok Listen init_sys
      "[(env_ok, Press Shift), (env_ok, Press Hold)]"]
  have t: "toggle_mode (glob (serial DictatorApp [(env_ok, Press Shift), (env_ok, Press Hold)]
      init_sys))"
    by (simp add: sys_eval)
  have "toggle_mode (glob (serial DictatorApp [(env_ok, Press Shift), (env_ok, Press Hold)]
      init_sys)) \<longrightarrow>
    recording (glob (serial DictatorApp [(env_ok, Press Shift), (env_ok, Press Hold)] init_sys))"
    by (rule conjunct1 [OF conjunct2 [OF conjunct2 [OF T]]])
  then have r: "recording (glob (serial DictatorApp [(env_ok, Press Shift), (env_ok, Press Hold)]
      init_sys))"
    using t by (rule mp)
  have a: "active_sessions (glob (serial DictatorApp [(env_ok, Press Shift), (env_ok, Press Hold)]
     init_sys)) = 1"
    by (simp add: sys_eval active_sessions_def)
  have m: "mode_of (glob (serial_event DictatorApp env_ok (Press Hold)
     (serial DictatorApp [(env_ok, Press Shift), (env_ok, Press Hold)] init_sys))) = Idle"
    by (simp add: sys_eval mode_of_def)
  from t r a m show ?thesis by (simp add: mode_of_def edge_def)
qed

text \<open>
  Claim C1 as stated fails in each part. Hold key down, shift down, hold key up (no stop,
  since shift is held), hold key down again: \<^verbatim>\<open>on_press\<close> sets \<^verbatim>\<open>toggle_mode\<close>
  before it calls \<^verbatim>\<open>start_recording\<close>, which returns at once, and the mode has moved
  from \<open>Momentary\<close> to \<open>Continuous\<close>. When a continuous recording is stopped,
  \<^verbatim>\<open>on_press\<close> clears \<^verbatim>\<open>toggle_mode\<close> while \<^verbatim>\<open>recording\<close> is still set: the
  mode moves from \<open>Continuous\<close> to \<open>Momentary\<close>. And when the hold key goes down
  between the stopping thread's \<^verbatim>\<open>recording = False\<close> and its \<^verbatim>\<open>stream.stop()\<close>,
  a second stream is started while the first is still active. When a stopping thread runs
  only after a later press with shift has set \<^verbatim>\<open>toggle_mode\<close>, it leaves
  \<^verbatim>\<open>toggle_mode\<close> set with \<^verbatim>\<open>recording\<close> cleared.
\<close>

theorem claimed_transitions_fail:
  "mode_of (snd (run DictatorApp
      [(env_ok, Press Hold), (env_ok, Press Shift), (env_ok, Release Hold)] init)) = Momentary \<and>
   mode_of (snd (step DictatorApp env_ok (Press Hold) (snd (run DictatorApp
      [(env_ok, Press Hold), (env_ok, Press Shift), (env_ok, Release Hold)] init)))) = Continuous \<and>
   \<not> claimed_edge
      (mode_of (snd (run DictatorApp
         [(env_ok, Press Hold), (env_ok, Press Shift), (env_ok, Release Hold)] init)))
      (mode_of (snd (step DictatorApp env_ok (Press Hold) (snd (run DictatorApp
         [(env_ok, Press Hold), (env_ok, Press Shift), (env_ok, Release Hold)] init))))) \<and>
   mode_of (glob (sched DictatorApp continuous_stop_schedule init_sys)) = Continuous \<and>
   mode_of (glob (sstep DictatorApp env_ok Listen
      (sched DictatorApp continuous_stop_schedule init_sys))) = Momentary \<and>
   \<not> claimed_edge
      (mode_of (glob (sched DictatorApp continuous_stop_schedule init_sys)))
      (mode_of (glob (sstep DictatorApp env_ok Listen
         (sched DictatorApp continuous_stop_schedule init_sys)))) \<and>
   active_sessions (glob (sched DictatorApp overlap_schedule init_sys)) = 2 \<and>
   toggle_mode (glob (sched DictatorApp late_stop_schedule init_sys)) \<and>
   \<not> recording (glob (sched DictatorApp late_stop_schedule init_sys))"
proof -
  have 1: "mode_of (snd (run DictatorApp
      [(env_ok, Press Hold), (env_ok, Press Shift), (env_ok, Release Hold)] init)) = Momentary"
    by (simp add: init_def env_ok_def on_press_def on_release_def start_recording_def
          mode_of_def)
  have 2: "mode_of (snd (step DictatorApp env_ok (Press Hold) (snd (run DictatorApp
      [(env_ok, Press Hold), (env_ok, Press Shift), (env_ok, Release Hold)] init)))) = Continuous"
    by (simp add: init_def env_ok_def on_press_def on_release_def start_recording_def
          mode_of_def)
  have 3: "mode_of (glob (sched DictatorApp continuous_stop_schedule init_sys)) = Continuous"
    by (simp add: continuous_stop_schedule_def init_sys_def init_def env_ok_def listen_def
          mode_of_def)
  have 4: "mode_of (glob (sstep DictatorApp env_ok Listen
      (sched DictatorApp continuous_stop_schedule init_sys))) = Momentary"
    by (simp add: continuous_stop_schedule_def init_sys_def init_def env_ok_def listen_def
          mode_of_def)
  have 5: "active_sessions (glob (sched DictatorApp overlap_schedule init_sys)) = 2"
    by (simp add: overlap_schedule_def init_sys_def init_def env_ok_def listen_def work_def
          new_worker_def active_sessions_def)
  have 6: "toggle_mode (glob (sched DictatorApp late_stop_schedule init_sys)) \<and>
      \<not> recording (glob (sched DictatorApp late_stop_schedule init_sys))"
    by (simp add: late_stop_schedule_def init_sys_def init_def env_ok_def listen_def work_def
          new_worker_def)
  show ?thesis unfolding 1 2 3 4 5 using 6 by (simp add: claimed_edge_def)
qed

subsection \<open>Starting twice\<close>

text \<open>
  Claim C4, as the code has it. A second \<^verbatim>\<open>start_recording\<close> right after a first one
  returns at once and leaves every global, every stream and the trace of effects as they
  were, whatever the first call did and whatever the device would answer. Started from a
  state that records nothing and has no active stream, with a working device, the two calls
  leave exactly one active stream. The second call returns without a value, as the first
  does: there is no signal.
\<close>

theorem start_recording_twice:
  "start_recording e2 (snd (start_recording e1 s)) = (None, snd (start_recording e1 s)) \<and>
   (\<not> recording s \<and> active_sessions s = 0 \<and> device e1 = Available \<longrightarrow>
      active_sessions (snd (start_recording e2 (snd (start_recording e1 s)))) = 1)"
proof -
  have 1: "start_recording e2 (snd (start_recording e1 s)) = (None, snd (start_recording e1 s))"
    using recording_start [of e1 s] by (simp add: start_recording_def)
  have "active_sessions (snd (start_recording e1 s)) = 1"
    if "\<not> recording s" "active_sessions s = 0" "device e1 = Available"
    using that by (simp add: start_recording_def active_sessions_def)
  with 1 show ?thesis by simp
qed

text \<open>
  The theorem at the initial state with a working device.
\<close>

theorem start_recording_twice_witness:
  "\<not> recording init \<and> active_sessions init = 0 \<and> device env_ok = Available \<and>
   start_recording env_ok (snd (start_recording env_ok init)) =
     (None, snd (start_recording env_ok init)) \<and>
   active_sessions (snd (start_recording env_ok (snd (start_recording env_ok init)))) = 1"
  using start_recording_twice [of env_ok env_ok init]
  by (simp add: init_def env_ok_def active_sessions_def start_recording_def)

text \<open>
  Claim C4 as stated fails in its last part: the second call gives its caller what the first
  call gave (a plain return, no exception), and changes nothing that anyone could observe.
\<close>

theorem second_start_signals_nothing:
  "fst (start_recording env_ok (snd (start_recording env_ok init))) =
     fst (start_recording env_ok init) \<and>
   snd (start_recording env_ok (snd (start_recording env_ok init))) =
     snd (start_recording env_ok init)"
  by (simp add: init_def env_ok_def start_recording_def)

subsection \<open>The device cannot be opened\<close>

text \<open>
  Claim C2, as the code has it. When nothing is recorded and the input stream cannot be
  opened or started, the exception leaves \<^verbatim>\<open>start_recording\<close>, and \<^verbatim>\<open>on_press\<close>
  with it; no further stream becomes active. But \<^verbatim>\<open>recording\<close> has been set and
  \<^verbatim>\<open>audio_data\<close> emptied before the stream was created (and \<^verbatim>\<open>toggle_mode\<close> set
  before the call, when shift is held), so the mode is \<open>Momentary\<close> or \<open>Continuous\<close>
  afterwards, not \<open>Idle\<close>.
\<close>

theorem device_failure:
  assumes "\<not> recording s" and "device e \<noteq> Available"
  shows "fst (start_recording e s) = Some DeviceUnavailable \<and>
         active_sessions (snd (start_recording e s)) = active_sessions s \<and>
         recording (snd (start_recording e s)) \<and>
         audio_data (snd (start_recording e s)) = [] \<and>
         mode_of (snd (start_recording e s)) \<noteq> Idle \<and>
         (\<not> toggle_mode s \<longrightarrow>
            fst (on_press p e Hold s) = Some DeviceUnavailable \<and>
            active_sessions (snd (on_press p e Hold s)) = active_sessions s \<and>
            mode_of (snd (on_press p e Hold s)) =
              (if shift_held s then Continuous else Momentary))"
  using assms
  by (cases "device e")
     (simp_all add: start_recording_def on_press_def mode_of_def active_sessions_def)

text \<open>
  The theorem at the initial state with a device that cannot be opened.
\<close>

theorem device_failure_witness:
  "\<not> recording init \<and> device env_no_device \<noteq> Available \<and> \<not> toggle_mode init \<and>
   fst (start_recording env_no_device init) = Some DeviceUnavailable \<and>
   active_sessions (snd (start_recording env_no_device init)) = 0 \<and>
   recording (snd (start_recording env_no_device init)) \<and>
   fst (on_press DictatorApp env_no_device Hold init) = Some DeviceUnavailable \<and>
   mode_of (snd (on_press DictatorApp env_no_device Hold init)) = Momentary"
  using device_failure [of init env_no_device DictatorApp]
  by (simp add: init_def env_no_device_def active_sessions_def start_recording_def on_press_def
        mode_of_def)

text \<open>
  Claim C2 as stated fails: at the initial state, with no device, the failed start leaves a
  state that differs from the one before, and its mode is not \<open>Idle\<close>.
\<close>

theorem device_failure_changes_state:
  "fst (start_recording env_no_device init) = Some DeviceUnavailable \<and>
   snd (start_recording env_no_device init) \<noteq> init \<and>
   mode_of init = Idle \<and>
   mode_of (snd (start_recording env_no_device init)) \<noteq> Idle"
  by (simp add: init_def env_no_device_def start_recording_def mode_of_def)

subsection \<open>Stopping a continuous recording\<close>

lemma stop_thread_count:
  "count_list (effects (snd (stop_recording p e s))) ThreadStart = count_list (effects s) ThreadStart"
  by (cases p; simp add: stop_recording_def stop_recording_cli_def stop_recording_app_def
        stop_and_close_def transcribe_and_paste_def transcribe_and_record_def paste_def Let_def
        split: option.splits sum.splits)

lemma spawn_thread_count:
  "count_list (effects (spawn_stop p e s)) ThreadStart = count_list (effects s) ThreadStart + 1"
  by (simp add: spawn_stop_def stop_thread_count)

text \<open>
  Claim C5. In continuous mode, whether shift is held or not, the hold key going down returns
  normally, starts exactly one stopping thread and leaves the mode \<open>Idle\<close>; the hold key
  going up changes nothing at all. In the scenario (shift down, hold key down, hold key up,
  hold key down, with a working device at the first hold key down) the mode is
  \<open>Continuous\<close> after the second and the third event, no thread has been started by then,
  and after the fourth event the mode is \<open>Idle\<close> and exactly one thread has been started.
\<close>

theorem continuous_stop:
  "(mode_of s = Continuous \<longrightarrow>
      fst (on_press p e Hold s) = None \<and>
      mode_of (snd (on_press p e Hold s)) = Idle \<and>
      count_list (effects (snd (on_press p e Hold s))) ThreadStart =
        count_list (effects s) ThreadStart + 1 \<and>
      on_release p e Hold s = (None, s)) \<and>
   (device e2 = Available \<longrightarrow>
      mode_of (snd (run p [(e1, Press Shift), (e2, Press Hold)] init)) = Continuous \<and>
      mode_of (snd (run p [(e1, Press Shift), (e2, Press Hold), (e3, Release Hold)] init))
        = Continuous \<and>
      count_list (effects (snd (run p [(e1, Press Shift), (e2, Press Hold),
        (e3, Release Hold)] init))) ThreadStart = 0 \<and>
      run p [(e1, Press Shift), (e2, Press Hold), (e3, Release Hold), (e4, Press Hold)] init =
        (None, snd (run p [(e1, Press Shift), (e2, Press Hold), (e3, Release Hold),
                           (e4, Press Hold)] init)) \<and>
      mode_of (snd (run p [(e1, Press Shift), (e2, Press Hold), (e3, Release Hold),
        (e4, Press Hold)] init)) = Idle \<and>
      count_list (effects (snd (run p [(e1, Press Shift), (e2, Press Hold), (e3, Release Hold),
        (e4, Press Hold)] init))) ThreadStart = 1)"
proof -
  have a: "fst (on_press p e Hold s) = None \<and>
      mode_of (snd (on_press p e Hold s)) = Idle \<and>
      count_list (effects (snd (on_press p e Hold s))) ThreadStart =
        count_list (effects s) ThreadStart + 1 \<and>
      on_release p e Hold s = (None, s)" if "mode_of s = Continuous"
  proof -
    from that have t: "toggle_mode s" by (simp add: mode_of_def split: if_splits)
    then show ?thesis
      by (simp add: on_press_def on_release_def spawn_fields spawn_thread_count mode_of_def)
  qed
  have b: "mode_of (snd (run p [(e1, Press Shift), (e2, Press Hold)] init)) = Continuous \<and>
      mode_of (snd (run p [(e1, Press Shift), (e2, Press Hold), (e3, Release Hold)] init))
        = Continuous \<and>
      count_list (effects (snd (run p [(e1, Press Shift), (e2, Press Hold),
        (e3, Release Hold)] init))) ThreadStart = 0 \<and>
      run p [(e1, Press Shift), (e2, Press Hold), (e3, Release Hold), (e4, Press Hold)] init =
        (None, snd (run p [(e1, Press Shift), (e2, Press Hold), (e3, Release Hold),
                           (e4, Press Hold)] init)) \<and>
      mode_of (snd (run p [(e1, Press Shift), (e2, Press Hold), (e3, Release Hold),
        (e4, Press Hold)] init)) = Idle \<and>
      count_list (effects (snd (run p [(e1, Press Shift), (e2, Press Hold), (e3, Release Hold),
        (e4, Press Hold)] init))) ThreadStart = 1" if "device e2 = Available"
    using that
    by (simp add: init_def on_press_def on_release_def start_recording_def mode_of_def
          spawn_fields spawn_thread_count)
  from a b show ?thesis by blast
qed

text \<open>
  The theorem at a continuous recording with shift still held, and at the scenario with a
  working device throughout.
\<close>

theorem continuous_stop_witness:
  "mode_of ((holding [])\<lparr>toggle_mode := True, shift_held := True\<rparr>) = Continuous \<and>
   device env_ok = Available \<and>
   mode_of (snd (on_press Dictator env_ok Hold
     ((holding [])\<lparr>toggle_mode := True, shift_held := True\<rparr>))) = Idle \<and>
   on_release Dictator env_ok Hold ((holding [])\<lparr>toggle_mode := True, shift_held := True\<rparr>) =
     (None, (holding [])\<lparr>toggle_mode := True, shift_held := True\<rparr>) \<and>
   mode_of (snd (run Dictator [(env_ok, Press Shift), (env_ok, Press Hold),
     (env_ok, Release Hold)] init)) = Continuous \<and>
   mode_of (snd (run Dictator [(env_ok, Press Shift), (env_ok, Press Hold),
     (env_ok, Release Hold), (env_ok, Press Hold)] init)) = Idle \<and>
   count_list (effects (snd (run Dictator [(env_ok, Press Shift), (env_ok, Press Hold),
     (env_ok, Release Hold), (env_ok, Press Hold)] init))) ThreadStart = 1"
  using continuous_stop [of "(holding [])\<lparr>toggle_mode := True, shift_held := True\<rparr>"
      Dictator env_ok env_ok env_ok env_ok env_ok]
  by (simp add: holding_def env_ok_def mode_of_def)

subsection \<open>The engine fails\<close>

lemma holding_reached:
  "run p [(env_ok, Press Hold), (env_ok, Frames c)] init = (None, holding [c])"
  by (simp add: init_def env_ok_def on_press_def start_recording_def callback_def holding_def)

lemma start_available:
  assumes "\<not> recording s" and "device e = Available"
  shows "fst (start_recording e s) = None"
    and "recording (snd (start_recording e s))"
    and "toggle_mode (snd (start_recording e s)) = toggle_mode s"
    and "Active \<in> set (streams (snd (start_recording e s)))"
  using assms by (simp_all add: start_recording_def)

lemma armed_after_spawn:
  assumes "device e' = Available" and "\<not> toggle_mode s"
  shows "fst (on_press p e' Hold (spawn_stop p e s)) = None \<and>
         mode_of (snd (on_press p e' Hold (spawn_stop p e s))) =
           (if shift_held s then Continuous else Momentary) \<and>
         Active \<in> set (streams (snd (on_press p e' Hold (spawn_stop p e s))))"
proof -
  let ?t = "spawn_stop p e s"
  have r: "\<not> recording ?t" and t: "\<not> toggle_mode ?t" and h: "shift_held ?t = shift_held s"
    using assms by (simp_all add: spawn_fields)
  have r': "\<not> recording (?t\<lparr>toggle_mode := True\<rparr>)" using r by simp
  show ?thesis
  proof (cases "shift_held s")
    case True
    then have "on_press p e' Hold ?t = start_recording e' (?t\<lparr>toggle_mode := True\<rparr>)"
      using t h by (simp add: on_press_def)
    then show ?thesis
      using True start_available [OF r' assms(1)] by (simp add: mode_of_def)
  next
    case False
    then have "on_press p e' Hold ?t = start_recording e' ?t"
      using t h by (simp add: on_press_def)
    then show ?thesis
      using False t start_available [OF r assms(1)] by (simp add: mode_of_def)
  qed
qed

lemma stop_when_engine_raises:
  assumes "recording s" and "stream s = Some i" and "audio_data s \<noteq> []"
    and "p = DictatorApp \<longrightarrow>
           \<not> duration (flatten (audio_data s)) < MIN_AUDIO_DURATION \<and>
           \<not> rms_energy (flatten (audio_data s)) < MIN_AUDIO_ENERGY"
    and "engine e (flatten (audio_data s)) = Inl err"
  shows "stop_recording p e s =
           (Some err, s\<lparr>recording := False, streams := ((streams s)[i := Stopped])[i := Closed],
                         effects := effects s @ [Transcribe (flatten (audio_data s))]\<rparr>)"
  using assms
  by (cases p)
     (simp_all add: stop_recording_def stop_recording_cli_def stop_recording_app_def
        stop_and_close_def transcribe_and_paste_def transcribe_and_record_def Let_def)

text \<open>
  Claim C3, as the code has it. When the engine raises on a buffer that reached it,
  \<^verbatim>\<open>stop_recording\<close> does not catch the exception: it leaves the function, and with it
  the thread the function runs on. By then \<^verbatim>\<open>recording\<close> has been cleared and the
  stream that \<^verbatim>\<open>stream\<close> refers to has been stopped and closed, so the mode is
  \<open>Idle\<close>. Nothing has been pasted and nothing recorded in the history; the engine call
  is the only effect. The handler that started the thread (\<^verbatim>\<open>on_release\<close> in momentary
  mode, \<^verbatim>\<open>on_press\<close> in continuous mode) returns normally, and the next hold key going
  down, with a working device, starts a recording on an active stream.
\<close>

theorem engine_failure:
  assumes "recording s" and "stream s = Some i" and "audio_data s \<noteq> []"
    and "p = DictatorApp \<longrightarrow>
           \<not> duration (flatten (audio_data s)) < MIN_AUDIO_DURATION \<and>
           \<not> rms_energy (flatten (audio_data s)) < MIN_AUDIO_ENERGY"
    and "engine e (flatten (audio_data s)) = Inl err"
  shows "fst (stop_recording p e s) = Some err \<and>
         effects (snd (stop_recording p e s)) =
           effects s @ [Transcribe (flatten (audio_data s))] \<and>
         history (snd (stop_recording p e s)) = history s \<and>
         recording (snd (stop_recording p e s)) = False \<and>
         streams (snd (stop_recording p e s)) = (streams s)[i := Closed] \<and>
         (i < length (streams s) \<longrightarrow> streams (snd (stop_recording p e s)) ! i = Closed) \<and>
         mode_of (snd (stop_recording p e s)) = Idle \<and>
         (\<not> toggle_mode s \<and> \<not> shift_held s \<longrightarrow>
            fst (on_release p e Hold s) = None \<and>
            mode_of (snd (on_release p e Hold s)) = Idle \<and>
            streams (snd (on_release p e Hold s)) = (streams s)[i := Closed] \<and>
            effects (snd (on_release p e Hold s)) =
              effects s @ [ThreadStart, Transcribe (flatten (audio_data s))] \<and>
            history (snd (on_release p e Hold s)) = history s \<and>
            (\<forall>e'. device e' = Available \<longrightarrow>
               fst (on_press p e' Hold (snd (on_release p e Hold s))) = None \<and>
               mode_of (snd (on_press p e' Hold (snd (on_release p e Hold s)))) = Momentary \<and>
               Active \<in> set (streams (snd (on_press p e' Hold (snd (on_release p e Hold s))))))) \<and>
         (toggle_mode s \<longrightarrow>
            fst (on_press p e Hold s) = None \<and>
            mode_of (snd (on_press p e Hold s)) = Idle \<and>
            streams (snd (on_press p e Hold s)) = (streams s)[i := Closed] \<and>
            effects (snd (on_press p e Hold s)) =
              effects s @ [ThreadStart, Transcribe (flatten (audio_data s))] \<and>
            history (snd (on_press p e Hold s)) = history s \<and>
            (\<forall>e'. device e' = Available \<longrightarrow>
               fst (on_press p e' Hold (snd (on_press p e Hold s))) = None \<and>
               mode_of (snd (on_press p e' Hold (snd (on_press p e Hold s)))) =
                 (if shift_held s then Continuous else Momentary) \<and>
               Active \<in> set (streams (snd (on_press p e' Hold (snd (on_press p e Hold s)))))))"
proof -
  have 1: "fst (stop_recording p e s) = Some err \<and>
         effects (snd (stop_recording p e s)) =
           effects s @ [Transcribe (flatten (audio_data s))] \<and>
         history (snd (stop_recording p e s)) = history s \<and>
         recording (snd (stop_recording p e s)) = False \<and>
         streams (snd (stop_recording p e s)) = (streams s)[i := Closed] \<and>
         (i < length (streams s) \<longrightarrow> streams (snd (stop_recording p e s)) ! i = Closed) \<and>
         mode_of (snd (stop_recording p e s)) = Idle"
    by (simp add: stop_when_engine_raises [OF assms] mode_of_def)
  have sp: "effects (spawn_stop p e t) =
              effects s @ [ThreadStart, Transcribe (flatten (audio_data s))] \<and>
            streams (spawn_stop p e t) = (streams s)[i := Closed] \<and>
            history (spawn_stop p e t) = history s"
    if "recording t = recording s" "stream t = stream s" "audio_data t = audio_data s"
       "effects t = effects s" "streams t = streams s" "history t = history s" for t
  proof -
    let ?u = "t\<lparr>effects := effects t @ [ThreadStart]\<rparr>"
    have "stop_recording p e ?u =
           (Some err, ?u\<lparr>recording := False, streams := ((streams ?u)[i := Stopped])[i := Closed],
                         effects := effects ?u @ [Transcribe (flatten (audio_data ?u))]\<rparr>)"
      using assms that by (intro stop_when_engine_raises) simp_all
    then show ?thesis using that by (simp add: spawn_stop_def)
  qed
  have 2: "fst (on_release p e Hold s) = None \<and>
            mode_of (snd (on_release p e Hold s)) = Idle \<and>
            streams (snd (on_release p e Hold s)) = (streams s)[i := Closed] \<and>
            effects (snd (on_release p e Hold s)) =
              effects s @ [ThreadStart, Transcribe (flatten (audio_data s))] \<and>
            history (snd (on_release p e Hold s)) = history s \<and>
            (\<forall>e'. device e' = Available \<longrightarrow>
               fst (on_press p e' Hold (snd (on_release p e Hold s))) = None \<and>
               mode_of (snd (on_press p e' Hold (snd (on_release p e Hold s)))) = Momentary \<and>
               Active \<in> set (streams (snd (on_press p e' Hold (snd (on_release p e Hold s))))))"
    if "\<not> toggle_mode s" "\<not> shift_held s"
  proof -
    have r: "on_release p e Hold s = (None, spawn_stop p e s)"
      using that by (simp add: on_release_def)
    show ?thesis
      using that armed_after_spawn [of _ s p e] sp [of s]
      by (simp add: r spawn_fields mode_of_def)
  qed
  have 3: "fst (on_press p e Hold s) = None \<and>
            mode_of (snd (on_press p e Hold s)) = Idle \<and>
            streams (snd (on_press p e Hold s)) = (streams s)[i := Closed] \<and>
            effects (snd (on_press p e Hold s)) =
              effects s @ [ThreadStart, Transcribe (flatten (audio_data s))] \<and>
            history (snd (on_press p e Hold s)) = history s \<and>
            (\<forall>e'. device e' = Available \<longrightarrow>
               fst (on_press p e' Hold (snd (on_press p e Hold s))) = None \<and>
               mode_of (snd (on_press p e' Hold (snd (on_press p e Hold s)))) =
                 (if shift_held s then Continuous else Momentary) \<and>
               Active \<in> set (streams (snd (on_press p e' Hold (snd (on_press p e Hold s))))))"
    if "toggle_mode s"
  proof -
    let ?t = "s\<lparr>toggle_mode := False\<rparr>"
    have r: "on_press p e Hold s = (None, spawn_stop p e ?t)"
      using that by (simp add: on_press_def)
    show ?thesis
      using armed_after_spawn [of _ ?t p e] sp [of ?t]
      by (simp add: r spawn_fields mode_of_def)
  qed
  from 1 2 3 show ?thesis by blast
qed

text \<open>
  The theorem at half a second of loud samples and a failing engine, once for a momentary
  recording stopped by the hold key going up, once for a continuous one stopped by the hold
  key going down.
\<close>

theorem engine_failure_witness:
  "recording (holding [replicate 8000 1]) \<and>
   engine env_engine_fails (flatten (audio_data (holding [replicate 8000 1]))) = Inl EngineFailure \<and>
   \<not> duration (flatten (audio_data (holding [replicate 8000 1]))) < MIN_AUDIO_DURATION \<and>
   \<not> rms_energy (flatten (audio_data (holding [replicate 8000 1]))) < MIN_AUDIO_ENERGY \<and>
   fst (stop_recording DictatorApp env_engine_fails (holding [replicate 8000 1])) =
     Some EngineFailure \<and>
   effects (snd (stop_recording DictatorApp env_engine_fails (holding [replicate 8000 1]))) =
     [Transcribe (replicate 8000 1)] \<and>
   recording (snd (stop_recording DictatorApp env_engine_fails (holding [replicate 8000 1]))) =
     False \<and>
   streams (holding [replicate 8000 1]) = [Active] \<and>
   streams (snd (stop_recording DictatorApp env_engine_fails (holding [replicate 8000 1]))) =
     [Closed] \<and>
   fst (on_release DictatorApp env_engine_fails Hold (holding [replicate 8000 1])) = None \<and>
   streams (snd (on_release DictatorApp env_engine_fails Hold (holding [replicate 8000 1]))) =
     [Closed] \<and>
   mode_of (snd (on_press DictatorApp env_ok Hold
     (snd (on_release DictatorApp env_engine_fails Hold (holding [replicate 8000 1]))))) =
     Momentary \<and>
   toggle_mode ((holding [replicate 8000 1])\<lparr>toggle_mode := True\<rparr>) \<and>
   fst (on_press Dictator env_engine_fails Hold
     ((holding [replicate 8000 1])\<lparr>toggle_mode := True\<rparr>)) = None \<and>
   mode_of (snd (on_press Dictator env_engine_fails Hold
     ((holding [replicate 8000 1])\<lparr>toggle_mode := True\<rparr>))) = Idle \<and>
   streams (snd (on_press Dictator env_engine_fails Hold
     ((holding [replicate 8000 1])\<lparr>toggle_mode := True\<rparr>))) = [Closed] \<and>
   mode_of (snd (on_press Dictator env_ok Hold (snd (on_press Dictator env_engine_fails Hold
     ((holding [replicate 8000 1])\<lparr>toggle_mode := True\<rparr>))))) = Momentary"
  using engine_failure [of "holding [replicate 8000 1]" 0 DictatorApp env_engine_fails
      EngineFailure]
    engine_failure [of "(holding [replicate 8000 1])\<lparr>toggle_mode := True\<rparr>" 0 Dictator
      env_engine_fails EngineFailure]
  by (simp add: holding_def env_engine_fails_def env_ok_def flatten_def duration_def
        rms_energy_def SAMPLE_RATE_def MIN_AUDIO_DURATION_def MIN_AUDIO_ENERGY_def
        sum_list_replicate)

text \<open>
  Claim C3 as stated fails in its first part: with half a second of loud samples captured
  and a failing engine, the exception comes out of \<^verbatim>\<open>stop_recording\<close> in both programs;
  it is not caught and turned into a result.
\<close>

theorem engine_failure_not_caught:
  "fst (stop_recording DictatorApp env_engine_fails (holding [replicate 8000 1])) =
     Some EngineFailure \<and>
   fst (stop_recording Dictator env_engine_fails (holding [replicate 8000 1])) =
     Some EngineFailure"
  by (simp add: holding_def env_engine_fails_def flatten_def duration_def
        rms_energy_def SAMPLE_RATE_def MIN_AUDIO_DURATION_def MIN_AUDIO_ENERGY_def
        sum_list_replicate stop_recording_def stop_recording_cli_def stop_recording_app_def
        stop_and_close_def transcribe_and_paste_def transcribe_and_record_def Let_def)

subsection \<open>The gates of the application\<close>


lemma stop_app_reaches:
  assumes "reaches_engine s"
  shows "stop_recording_app e s =
           transcribe_and_record e (flatten (audio_data s))
             (s\<lparr>recording := False,
                streams := ((streams s)[the (stream s) := Stopped])[the (stream s) := Closed]\<rparr>)"
  using assms
  by (auto simp add: reaches_engine_def stop_recording_app_def stop_and_close_def Let_def)

lemma stop_app_not_reaches:
  assumes "\<not> reaches_engine s"
  shows "effects (snd (stop_recording_app e s)) = effects s"
    and "history (snd (stop_recording_app e s)) = history s"
  using assms
  by (auto simp add: reaches_engine_def stop_recording_app_def stop_and_close_def Let_def
        split: option.splits)


lemma stop_app_history:
  "history (snd (stop_recording_app e s)) =
     (if accepted e s then take MAX_HISTORY ((now e, result_text e s) # history s)
      else history s)"
proof (cases "reaches_engine s")
  case True
  then show ?thesis
    by (simp add: stop_app_reaches transcribe_and_record_def accepted_def result_text_def Let_def
          split: sum.splits)
next
  case False
  then show ?thesis by (simp add: stop_app_not_reaches accepted_def)
qed

lemma stop_cli_history: "history (snd (stop_recording_cli e s)) = history s"
  by (simp add: stop_recording_cli_def stop_and_close_def transcribe_and_paste_def Let_def
        split: option.splits sum.splits)

lemma accepted_trimmed: "accepted e s \<Longrightarrow> trimmed (result_text e s)"
  by (auto simp add: accepted_def result_text_def trimmed_def strip_hd strip_last split: sum.splits)

lemma app_short_rejected:
  assumes "duration (flatten (audio_data s)) < MIN_AUDIO_DURATION"
  shows "effects (snd (stop_recording_app e s)) = effects s \<and>
         history (snd (stop_recording_app e s)) = history s"
  using assms
  by (simp add: stop_recording_app_def stop_and_close_def Let_def split: option.splits)

lemma sum_sq_zero: "\<forall>x \<in> set xs. x = (0::real) \<Longrightarrow> sum_list (map (\<lambda>x. x ^ 2) xs) = 0"
  by (induction xs) auto

lemma rms_zero: "\<forall>x \<in> set xs. x = (0::real) \<Longrightarrow> rms_energy xs = 0"
  by (simp add: rms_energy_def sum_sq_zero)

text \<open>
  Claim C6. In \<^verbatim>\<open>dictator_app.py\<close>, a buffer whose sample count divided by the sample
  rate is below \<^verbatim>\<open>MIN_AUDIO_DURATION\<close> is rejected, whatever its samples are: the call
  adds no effect (the engine is not called, nothing is pasted) and no history entry. A
  buffer of 4800 samples lasts 0.3 seconds and is such a buffer.
\<close>

theorem duration_gate:
  "(duration (flatten (audio_data s)) < MIN_AUDIO_DURATION \<longrightarrow>
      effects (snd (stop_recording_app e s)) = effects s \<and>
      history (snd (stop_recording_app e s)) = history s) \<and>
   (length (flatten (audio_data s)) = 4800 \<longrightarrow>
      duration (flatten (audio_data s)) = 3 / 10 \<and>
      effects (snd (stop_recording_app e s)) = effects s \<and>
      history (snd (stop_recording_app e s)) = history s)"
proof -
  have "duration (flatten (audio_data s)) = 3 / 10 \<and>
        duration (flatten (audio_data s)) < MIN_AUDIO_DURATION"
    if "length (flatten (audio_data s)) = 4800"
    using that by (simp add: duration_def SAMPLE_RATE_def MIN_AUDIO_DURATION_def)
  then show ?thesis using app_short_rejected [of s e] by blast
qed

text \<open>
  The theorem at 4800 samples of amplitude 1, far above the energy threshold: rejected.
\<close>

theorem duration_gate_witness:
  "length (flatten (audio_data (holding [replicate 4800 1]))) = 4800 \<and>
   duration (flatten (audio_data (holding [replicate 4800 1]))) < MIN_AUDIO_DURATION \<and>
   \<not> rms_energy (flatten (audio_data (holding [replicate 4800 1]))) < MIN_AUDIO_ENERGY \<and>
   effects (snd (stop_recording_app env_ok (holding [replicate 4800 1]))) = [] \<and>
   history (snd (stop_recording_app env_ok (holding [replicate 4800 1]))) = []"
  using duration_gate [of "holding [replicate 4800 1]" env_ok]
  by (simp add: holding_def flatten_def duration_def SAMPLE_RATE_def MIN_AUDIO_DURATION_def
        rms_energy_def MIN_AUDIO_ENERGY_def sum_list_replicate)

text \<open>
  Claim C7. In \<^verbatim>\<open>dictator_app.py\<close>, a buffer of zeros of any length is rejected: the
  call adds no effect (the engine is not called) and no history entry. When the buffer has
  samples, their root mean square is 0, below \<^verbatim>\<open>MIN_AUDIO_ENERGY\<close>.
\<close>

theorem energy_gate:
  assumes "\<forall>x \<in> set (flatten (audio_data s)). x = 0"
  shows "(flatten (audio_data s) \<noteq> [] \<longrightarrow>
            rms_energy (flatten (audio_data s)) = 0 \<and>
            rms_energy (flatten (audio_data s)) < MIN_AUDIO_ENERGY) \<and>
         effects (snd (stop_recording_app e s)) = effects s \<and>
         history (snd (stop_recording_app e s)) = history s"
proof (cases "duration (flatten (audio_data s)) < MIN_AUDIO_DURATION")
  case True
  have z: "rms_energy (flatten (audio_data s)) = 0" using assms by (rule rms_zero)
  then have "rms_energy (flatten (audio_data s)) < MIN_AUDIO_ENERGY"
    by (simp add: MIN_AUDIO_ENERGY_def)
  with z app_short_rejected [OF True, of e] show ?thesis by simp
next
  case False
  have z: "rms_energy (flatten (audio_data s)) = 0" using assms by (rule rms_zero)
  then have lt: "rms_energy (flatten (audio_data s)) < MIN_AUDIO_ENERGY"
    by (simp add: MIN_AUDIO_ENERGY_def)
  then have "\<not> reaches_engine s" by (simp add: reaches_engine_def)
  then have "effects (snd (stop_recording_app e s)) = effects s \<and>
         history (snd (stop_recording_app e s)) = history s"
    by (simp add: stop_app_not_reaches)
  with z lt show ?thesis by simp
qed

text \<open>The theorem at one second of zeros, long enough for the duration gate.\<close>

theorem energy_gate_witness:
  "set (flatten (audio_data (holding [replicate 16000 0]))) = {0} \<and>
   flatten (audio_data (holding [replicate 16000 0])) \<noteq> [] \<and>
   \<not> duration (flatten (audio_data (holding [replicate 16000 0]))) < MIN_AUDIO_DURATION \<and>
   rms_energy (flatten (audio_data (holding [replicate 16000 0]))) = 0 \<and>
   effects (snd (stop_recording_app env_ok (holding [replicate 16000 0]))) = [] \<and>
   history (snd (stop_recording_app env_ok (holding [replicate 16000 0]))) = []"
  using energy_gate [of "holding [replicate 16000 0]" env_ok]
  by (simp add: holding_def flatten_def duration_def SAMPLE_RATE_def MIN_AUDIO_DURATION_def)

subsection \<open>From the engine's text to the paste\<close>

lemma stop_engine_returns:
  assumes "recording s" and "stream s = Some i" and "audio_data s \<noteq> []"
    and "p = DictatorApp \<longrightarrow>
           \<not> duration (flatten (audio_data s)) < MIN_AUDIO_DURATION \<and>
           \<not> rms_energy (flatten (audio_data s)) < MIN_AUDIO_ENERGY"
    and "engine e (flatten (audio_data s)) = Inr raw"
  shows "fst (stop_recording p e s) = None"
    and "effects (snd (stop_recording p e s)) =
           effects s @ Transcribe (flatten (audio_data s)) #
             (if strip raw \<noteq> [] then paste (strip raw) else [])"
    and "history (snd (stop_recording p e s)) =
           (if p = DictatorApp \<and> strip raw \<noteq> []
            then take MAX_HISTORY ((now e, strip raw) # history s) else history s)"
  using assms
  by (cases p;
      simp add: stop_recording_def stop_recording_cli_def stop_recording_app_def
        stop_and_close_def transcribe_and_paste_def transcribe_and_record_def Let_def)+

text \<open>
  Claim C8. For a recording that reaches the engine (in \<^verbatim>\<open>dictator_app.py\<close>: that
  passes both gates), in either program: \<^verbatim>\<open>stop_recording\<close> returns normally; when the
  engine returns "hello world", that text is put on the clipboard and pasted; in general
  the text put on the clipboard is the engine's text without the white space around it,
  provided something is left, and the application puts the same text in the history; and
  when the engine's text is empty or all white space, nothing is pasted and the history
  stays as it is.
\<close>

theorem pipeline_round_trip:
  assumes "recording s" and "stream s = Some i" and "audio_data s \<noteq> []"
    and "p = DictatorApp \<longrightarrow>
           \<not> duration (flatten (audio_data s)) < MIN_AUDIO_DURATION \<and>
           \<not> rms_energy (flatten (audio_data s)) < MIN_AUDIO_ENERGY"
    and "engine e (flatten (audio_data s)) = Inr raw"
  shows "fst (stop_recording p e s) = None \<and>
         (raw = ''hello world'' \<longrightarrow>
            effects (snd (stop_recording p e s)) =
              effects s @ [Transcribe (flatten (audio_data s)), Copy ''hello world'',
                           KbPress Cmd, KbPress (Chr CHR ''v''), KbRelease (Chr CHR ''v''),
                           KbRelease Cmd]) \<and>
         (strip raw \<noteq> [] \<longrightarrow>
            effects (snd (stop_recording p e s)) =
              effects s @ [Transcribe (flatten (audio_data s)), Copy (strip raw),
                           KbPress Cmd, KbPress (Chr CHR ''v''), KbRelease (Chr CHR ''v''),
                           KbRelease Cmd] \<and>
            history (snd (stop_recording p e s)) =
              (if p = DictatorApp then take MAX_HISTORY ((now e, strip raw) # history s)
               else history s) \<and>
            trimmed (strip raw)) \<and>
         (\<exists>pre post. raw = pre @ strip raw @ post \<and> list_all isspace pre \<and>
            list_all isspace post) \<and>
         (list_all isspace raw \<longrightarrow>
            effects (snd (stop_recording p e s)) =
              effects s @ [Transcribe (flatten (audio_data s))] \<and>
            history (snd (stop_recording p e s)) = history s)"
proof -
  note r = stop_engine_returns [OF assms]
  have 1: "effects (snd (stop_recording p e s)) =
              effects s @ [Transcribe (flatten (audio_data s)), Copy ''hello world'',
                           KbPress Cmd, KbPress (Chr CHR ''v''), KbRelease (Chr CHR ''v''),
                           KbRelease Cmd]"
    if "raw = ''hello world''"
    using r(2) that by (simp add: strip_hello paste_def)
  have 2: "effects (snd (stop_recording p e s)) =
              effects s @ [Transcribe (flatten (audio_data s)), Copy (strip raw),
                           KbPress Cmd, KbPress (Chr CHR ''v''), KbRelease (Chr CHR ''v''),
                           KbRelease Cmd] \<and>
            history (snd (stop_recording p e s)) =
              (if p = DictatorApp then take MAX_HISTORY ((now e, strip raw) # history s)
               else history s) \<and>
            trimmed (strip raw)" if "strip raw \<noteq> []"
    using r(2,3) that by (simp add: trimmed_def strip_hd strip_last paste_def)
  have 3: "effects (snd (stop_recording p e s)) =
              effects s @ [Transcribe (flatten (audio_data s))] \<and>
            history (snd (stop_recording p e s)) = history s" if "list_all isspace raw"
    using r(2,3) strip_blank [OF that] by simp
  from r(1) 1 2 3 strip_decomp [of raw] show ?thesis by blast
qed

text \<open>
  The theorem at half a second of loud samples: in the application with an engine that
  hears "hello world" and with one that returns " good  day " with blanks around it, and in
  the command-line tool with an engine that returns two blanks.
\<close>

theorem pipeline_round_trip_witness:
  "recording (holding [replicate 8000 1]) \<and>
   \<not> duration (flatten (audio_data (holding [replicate 8000 1]))) < MIN_AUDIO_DURATION \<and>
   \<not> rms_energy (flatten (audio_data (holding [replicate 8000 1]))) < MIN_AUDIO_ENERGY \<and>
   engine env_ok (flatten (audio_data (holding [replicate 8000 1]))) = Inr ''hello world'' \<and>
   strip ''hello world'' \<noteq> [] \<and>
   fst (stop_recording DictatorApp env_ok (holding [replicate 8000 1])) = None \<and>
   effects (snd (stop_recording DictatorApp env_ok (holding [replicate 8000 1]))) =
     [Transcribe (replicate 8000 1), Copy ''hello world'', KbPress Cmd, KbPress (Chr CHR ''v''),
      KbRelease (Chr CHR ''v''), KbRelease Cmd] \<and>
   strip '' good  day  '' = ''good  day'' \<and>
   effects (snd (stop_recording DictatorApp
     (env_ok\<lparr>engine := (\<lambda>_. Inr '' good  day  '')\<rparr>) (holding [replicate 8000 1]))) =
     [Transcribe (replicate 8000 1), Copy ''good  day'', KbPress Cmd, KbPress (Chr CHR ''v''),
      KbRelease (Chr CHR ''v''), KbRelease Cmd] \<and>
   history (snd (stop_recording DictatorApp
     (env_ok\<lparr>engine := (\<lambda>_. Inr '' good  day  '')\<rparr>) (holding [replicate 8000 1]))) =
     [(''09:41 AM'', ''good  day'')] \<and>
   list_all isspace ''  '' \<and>
   effects (snd (stop_recording Dictator
     (env_ok\<lparr>engine := (\<lambda>_. Inr ''  '')\<rparr>) (holding [replicate 8000 1]))) =
     [Transcribe (replicate 8000 1)]"
  using pipeline_round_trip [of "holding [replicate 8000 1]" 0 DictatorApp env_ok
      "''hello world''"]
    pipeline_round_trip [of "holding [replicate 8000 1]" 0 DictatorApp
      "env_ok\<lparr>engine := (\<lambda>_. Inr '' good  day  '')\<rparr>" "'' good  day  ''"]
    pipeline_round_trip [of "holding [replicate 8000 1]" 0 Dictator
      "env_ok\<lparr>engine := (\<lambda>_. Inr ''  '')\<rparr>" "''  ''"]
  by (simp add: holding_def env_ok_def flatten_def duration_def rms_energy_def SAMPLE_RATE_def
        MIN_AUDIO_DURATION_def MIN_AUDIO_ENERGY_def MAX_HISTORY_def sum_list_replicate
        strip_def isspace_def)

subsection \<open>Result events and the history\<close>




lemma spawn_history:
  "history (spawn_stop p e s) =
     (if p = DictatorApp \<and> accepted e s
      then take MAX_HISTORY ((now e, result_text e s) # history s) else history s)"
proof -
  let ?u = "s\<lparr>effects := effects s @ [ThreadStart]\<rparr>"
  have a: "accepted e ?u = accepted e s" "result_text e ?u = result_text e s"
    by (simp_all add: accepted_def reaches_engine_def result_text_def)
  show ?thesis
    by (cases p) (simp_all add: spawn_stop_def stop_recording_def stop_cli_history
        stop_app_history a)
qed

lemma start_history: "history (snd (start_recording e s)) = history s"
  by (cases "device e") (simp_all add: start_recording_def)

lemma step_history:
  "history (snd (step p e ev s)) = history s \<or>
   history (snd (step p e ev s)) = [] \<or>
   (\<exists>s'. accepted e s' \<and> history s' = history s \<and>
      history (snd (step p e ev s)) = take MAX_HISTORY ((now e, result_text e s') # history s))"
proof (cases ev)
  case (Press k)
  show ?thesis
  proof (cases "k = Hold \<and> toggle_mode s")
    case True
    let ?t = "s\<lparr>toggle_mode := False\<rparr>"
    have "snd (step p e ev s) = spawn_stop p e ?t"
      using Press True by (simp add: on_press_def)
    then show ?thesis using spawn_history [of p e ?t] by (auto split: if_splits)
  next
    case False
    then have "history (snd (step p e ev s)) = history s"
      using Press by (cases k) (simp_all add: on_press_def start_history)
    then show ?thesis by simp
  qed
next
  case (Release k)
  show ?thesis
  proof (cases "k = Hold \<and> \<not> toggle_mode s \<and> \<not> shift_held s")
    case True
    have "snd (step p e ev s) = spawn_stop p e s"
      using Release True by (simp add: on_release_def)
    then show ?thesis using spawn_history [of p e s] by (auto split: if_splits)
  next
    case False
    then have "history (snd (step p e ev s)) = history s"
      using Release by (cases k) (auto simp add: on_release_def)
    then show ?thesis by simp
  qed
next
  case (Frames x)
  then show ?thesis by (simp add: callback_def)
next
  case ClearHistory
  then show ?thesis by (simp add: clear_history_def)
qed


lemma history_trimmed_step:
  assumes "\<forall>(t, x) \<in> set (history s). trimmed x"
  shows "\<forall>(t, x) \<in> set (history (snd (step p e ev s))). trimmed x"
proof -
  from step_history [of p e ev s] consider
    "history (snd (step p e ev s)) = history s" | "history (snd (step p e ev s)) = []"
    | s' where "accepted e s'"
        "history (snd (step p e ev s)) = take MAX_HISTORY ((now e, result_text e s') # history s)"
    by blast
  then show ?thesis
  proof cases
    case 1
    with assms show ?thesis by simp
  next
    case 2
    then show ?thesis by simp
  next
    case 3
    have "\<forall>(t, x) \<in> set ((now e, result_text e s') # history s). trimmed x"
      using assms accepted_trimmed [OF 3(1)] by simp
    moreover have "set (history (snd (step p e ev s))) \<subseteq>
        set ((now e, result_text e s') # history s)"
      unfolding 3(2) by (rule set_take_subset)
    ultimately show ?thesis by blast
  qed
qed




lemma history_trimmed_run: "\<forall>(t, x) \<in> set (history (snd (run p xs init))). trimmed x"
proof (rule run_invariant [where P = "\<lambda>s::state. \<forall>(t, x) \<in> set (history s). trimmed x"])
  show "\<forall>(t, x) \<in> set (history init). trimmed x" by (simp add: init_def)
next
  fix s :: state and e ev
  assume "\<forall>(t, x) \<in> set (history s). trimmed x"
  then show "\<forall>(t, x) \<in> set (history (snd (step p e ev s))). trimmed x"
    by (rule history_trimmed_step)
qed

text \<open>
  Claim C10. In every run, every text in the history is non-empty and has no white space at
  either end; and a stopped recording that is not accepted leaves the history as it is.
\<close>

theorem history_entries_trimmed:
  "(\<forall>(t, x) \<in> set (history (snd (run p xs init))).
      x \<noteq> [] \<and> \<not> isspace (hd x) \<and> \<not> isspace (last x)) \<and>
   (\<not> accepted e s \<longrightarrow> history (snd (stop_recording p e s)) = history s)"
proof -
  have "history (snd (stop_recording p e s)) = history s" if "\<not> accepted e s"
    using that by (cases p) (simp_all add: stop_recording_def stop_cli_history stop_app_history)
  then show ?thesis using history_trimmed_run [of p xs] by (auto simp add: trimmed_def)
qed

text \<open>
  The theorem at a run whose engine returns "hello world" with blanks around it, and at a
  stop whose engine returns two blanks.
\<close>

theorem history_entries_trimmed_witness:
  "history (snd (run DictatorApp
     [(env_ok, Press Hold), (env_ok, Frames (replicate 8000 1)), (env_padded, Release Hold)]
     init)) = [(''09:41 AM'', ''hello world'')] \<and>
   \<not> isspace (hd ''hello world'') \<and> \<not> isspace (last ''hello world'') \<and>
   \<not> accepted (env_ok\<lparr>engine := (\<lambda>_. Inr ''  '')\<rparr>) (holding [replicate 8000 1]) \<and>
   history (snd (stop_recording DictatorApp (env_ok\<lparr>engine := (\<lambda>_. Inr ''  '')\<rparr>)
     (holding [replicate 8000 1]))) = []"
  using history_entries_trimmed [of DictatorApp
      "[(env_ok, Press Hold), (env_ok, Frames (replicate 8000 1)), (env_padded, Release Hold)]"
      "env_ok\<lparr>engine := (\<lambda>_. Inr ''  '')\<rparr>" "holding [replicate 8000 1]"]
  by (simp add: init_def env_ok_def env_padded_def on_press_def on_release_def
        start_recording_def callback_def spawn_stop_def stop_recording_def
        stop_recording_app_def stop_and_close_def transcribe_and_record_def Let_def
        flatten_def duration_def rms_energy_def SAMPLE_RATE_def MIN_AUDIO_DURATION_def
        MIN_AUDIO_ENERGY_def MAX_HISTORY_def sum_list_replicate strip_def isspace_def
        accepted_def reaches_engine_def result_text_def holding_def)

end
